(* ===== verification/IO_Prelude.thy ===== *)
theory IO_Prelude
  imports Main "HOL-Library.Word" "HOL-Library.Multiset"
begin

text \<open>
  The prelude of the development: the machine integers of the C sources, the shallow
  embedding of a C function as a computation on a state that returns, leaves the process
  with \<^verbatim>\<open>exit\<close>, or runs into undefined behaviour, the loops of that embedding, its
  predicate transformer \<open>wp\<close>, and the collections of rewrite rules that the component
  theories extend.
\<close>

unbundle bit_operations_syntax

section \<open>Machine integers\<close>

type_synonym u8 = "8 word"
type_synonym u16 = "16 word"
type_synonym u32 = "32 word"
type_synonym u64 = "64 word"
type_synonym byte = "8 word"

text \<open>A C \<^verbatim>\<open>int\<close> is an \<^typ>\<open>int\<close>; conversions between widths are written out.\<close>

definition to_i32 :: "int \<Rightarrow> int" where
  "to_i32 i = sint (word_of_int i :: u32)"

definition is_i32 :: "int \<Rightarrow> bool" where
  "is_i32 i \<longleftrightarrow> - (2 ^ 31) \<le> i \<and> i < 2 ^ 31"

definition to_u16 :: "int \<Rightarrow> u16" where
  "to_u16 i = word_of_int i"

definition to_u32 :: "int \<Rightarrow> u32" where
  "to_u32 i = word_of_int i"

section \<open>Computations\<close>

datatype fault =
    Null_Deref
  | Out_Of_Bounds
  | Uninitialised
  | Wild_Write
  | Double_Free
  | Use_After_Free
  | Int_Overflow

datatype 'a outcome = Ok 'a | Exit int | Fault fault

type_synonym ('s, 'a) comp = "'s \<Rightarrow> 'a outcome \<times> 's"

named_theorems comp_simps \<open>unfolding of the embedding\<close>
named_theorems wp_simps \<open>predicate transformer equations\<close>

definition ret :: "'a \<Rightarrow> ('s, 'a) comp" where
  "ret a s = (Ok a, s)"

definition exit_with :: "int \<Rightarrow> ('s, 'a) comp" where
  "exit_with c s = (Exit c, s)"

definition fail :: "fault \<Rightarrow> ('s, 'a) comp" where
  "fail f s = (Fault f, s)"

definition bnd :: "('s, 'a) comp \<Rightarrow> ('a \<Rightarrow> ('s, 'b) comp) \<Rightarrow> ('s, 'b) comp" where
  "bnd m f s = (case m s of
      (Ok a, t) \<Rightarrow> f a t
    | (Exit c, t) \<Rightarrow> (Exit c, t)
    | (Fault x, t) \<Rightarrow> (Fault x, t))"

definition andthen :: "('s, 'a) comp \<Rightarrow> ('s, 'b) comp \<Rightarrow> ('s, 'b) comp" where
  "andthen m k = bnd m (\<lambda>_. k)"

definition get_state :: "('s, 's) comp" where
  "get_state s = (Ok s, s)"

definition modify :: "('s \<Rightarrow> 's) \<Rightarrow> ('s, unit) comp" where
  "modify f s = (Ok (), f s)"

definition when_c :: "bool \<Rightarrow> ('s, unit) comp \<Rightarrow> ('s, unit) comp" where
  "when_c b m = (if b then m else ret ())"

text \<open>A \<^verbatim>\<open>for\<close> loop over a list, and the first \<open>n\<close> rounds of a \<^verbatim>\<open>while (1)\<close> loop.\<close>

primrec for_list :: "('x \<Rightarrow> ('s, unit) comp) \<Rightarrow> 'x list \<Rightarrow> ('s, unit) comp" where
  "for_list f [] = ret ()"
| "for_list f (x # xs) = bnd (f x) (\<lambda>_. for_list f xs)"

primrec rounds :: "nat \<Rightarrow> ('s, unit) comp \<Rightarrow> ('s, unit) comp" where
  "rounds 0 m = ret ()"
| "rounds (Suc n) m = bnd m (\<lambda>_. rounds n m)"

lemma rounds_numeral [comp_simps]: "rounds (numeral k) m = bnd m (\<lambda>_. rounds (pred_numeral k) m)"
  by (simp add: numeral_eq_Suc)

lemmas comp_defs [comp_simps] =
  ret_def exit_with_def fail_def bnd_def andthen_def get_state_def modify_def when_c_def

lemma bnd_ret: "bnd (ret a) f = f a"
  by (rule ext) (simp add: bnd_def ret_def)

lemma bnd_assoc: "bnd (bnd m f) g = bnd m (\<lambda>a. bnd (f a) g)"
  by (rule ext) (simp add: bnd_def split: prod.split outcome.split)

lemma for_list_append: "for_list f (xs @ ys) = bnd (for_list f xs) (\<lambda>_. for_list f ys)"
  by (induction xs) (simp_all add: bnd_ret bnd_assoc)

section \<open>The predicate transformer\<close>

text \<open>
  \<open>wp m Q s\<close>: the computation \<open>m\<close>, started in \<open>s\<close>, ends with an outcome and a state
  that satisfy \<open>Q\<close>. Computations are total functions, so this is total correctness.
\<close>

definition wp :: "('s, 'a) comp \<Rightarrow> ('a outcome \<Rightarrow> 's \<Rightarrow> bool) \<Rightarrow> 's \<Rightarrow> bool" where
  "wp m Q s = Q (fst (m s)) (snd (m s))"

definition after :: "('a \<Rightarrow> 's \<Rightarrow> bool) \<Rightarrow> ('b outcome \<Rightarrow> 's \<Rightarrow> bool) \<Rightarrow> 'a outcome \<Rightarrow> 's \<Rightarrow> bool" where
  "after K Q r s = (case r of Ok a \<Rightarrow> K a s | Exit c \<Rightarrow> Q (Exit c) s | Fault f \<Rightarrow> Q (Fault f) s)"

lemma after_simps [simp]:
  "after K Q (Ok a) = K a"
  "after K Q (Exit c) = Q (Exit c)"
  "after K Q (Fault f) = Q (Fault f)"
  by (simp_all add: after_def fun_eq_iff)

text \<open>A postcondition for the case that the computation returns; it may also leave the process.\<close>

definition on_ok :: "('a \<Rightarrow> 's \<Rightarrow> bool) \<Rightarrow> 'a outcome \<Rightarrow> 's \<Rightarrow> bool" where
  "on_ok P r s = (case r of Ok a \<Rightarrow> P a s | Exit c \<Rightarrow> True | Fault f \<Rightarrow> True)"

lemma on_ok_simps [simp]:
  "on_ok P (Ok a) = P a" "on_ok P (Exit c) s" "on_ok P (Fault f) s"
  by (simp_all add: on_ok_def fun_eq_iff)

lemma after_on_ok [simp]: "after K (on_ok P) = on_ok K"
  by (intro ext) (simp add: after_def on_ok_def split: outcome.split)

lemma wp_ret [wp_simps]: "wp (ret a) Q = Q (Ok a)"
  by (rule ext) (simp add: wp_def ret_def)

lemma wp_exit [wp_simps]: "wp (exit_with c) Q = Q (Exit c)"
  by (rule ext) (simp add: wp_def exit_with_def)

lemma wp_fail [wp_simps]: "wp (fail f) Q = Q (Fault f)"
  by (rule ext) (simp add: wp_def fail_def)

lemma wp_bnd [wp_simps]: "wp (bnd m f) Q s = wp m (after (\<lambda>a. wp (f a) Q) Q) s"
  by (simp add: wp_def bnd_def after_def split: prod.split outcome.split)

lemma wp_andthen [wp_simps]: "wp (andthen m k) Q s = wp m (after (\<lambda>_. wp k Q) Q) s"
  by (simp add: andthen_def wp_bnd)

lemma wp_get_state [wp_simps]: "wp get_state Q s = Q (Ok s) s"
  by (simp add: wp_def get_state_def)

lemma wp_modify [wp_simps]: "wp (modify f) Q s = Q (Ok ()) (f s)"
  by (simp add: wp_def modify_def)

lemma wp_when [wp_simps]: "wp (when_c b m) Q s = (if b then wp m Q s else Q (Ok ()) s)"
  by (simp add: when_c_def wp_ret)

lemma wp_if [wp_simps]: "wp (if b then m else k) Q s = (if b then wp m Q s else wp k Q s)"
  by simp

lemma wp_for_Nil [wp_simps]: "wp (for_list f []) Q s = Q (Ok ()) s"
  by (simp add: wp_ret)

lemma wp_mono: "wp m Q s \<Longrightarrow> (\<And>r t. Q r t \<Longrightarrow> R r t) \<Longrightarrow> wp m R s"
  by (simp add: wp_def)

lemma wp_mono_run:
  "wp m Q s \<Longrightarrow> (\<And>r t. m s = (r, t) \<Longrightarrow> Q r t \<Longrightarrow> R r t) \<Longrightarrow> wp m R s"
  by (simp add: wp_def)

text \<open>Composition of two computations through what holds in between.\<close>

lemma wp_bnd_ok:
  "wp m (on_ok P) s \<Longrightarrow> (\<And>a t. P a t \<Longrightarrow> wp (f a) (on_ok R) t) \<Longrightarrow> wp (bnd m f) (on_ok R) s"
  by (simp add: wp_bnd) (erule wp_mono, auto simp: on_ok_def split: outcome.splits)

lemma wp_andthen_ok:
  "wp m (on_ok P) s \<Longrightarrow> (\<And>a t. P a t \<Longrightarrow> wp k (on_ok R) t) \<Longrightarrow> wp (andthen m k) (on_ok R) s"
  by (simp add: andthen_def wp_bnd_ok)

text \<open>As \<^const>\<open>on_ok\<close>, and the computation does not run into undefined behaviour.\<close>

definition sound :: "('a \<Rightarrow> 's \<Rightarrow> bool) \<Rightarrow> 'a outcome \<Rightarrow> 's \<Rightarrow> bool" where
  "sound P r s = (case r of Ok a \<Rightarrow> P a s | Exit c \<Rightarrow> True | Fault f \<Rightarrow> False)"

lemma sound_simps [simp]:
  "sound P (Ok a) = P a" "sound P (Exit c) s" "\<not> sound P (Fault f) s"
  by (simp_all add: sound_def fun_eq_iff)

lemma after_sound [simp]: "after K (sound P) = sound K"
  by (intro ext) (simp add: after_def sound_def split: outcome.split)

lemma sound_mono: "sound P r t \<Longrightarrow> (\<And>a. P a t \<Longrightarrow> R a t) \<Longrightarrow> sound R r t"
  by (simp add: sound_def split: outcome.splits)

lemma wp_bnd_sound:
  "wp m (sound P) s \<Longrightarrow> (\<And>a t. P a t \<Longrightarrow> wp (f a) (sound R) t) \<Longrightarrow> wp (bnd m f) (sound R) s"
  by (simp add: wp_bnd) (erule wp_mono, auto elim: sound_mono)

lemma wp_andthen_sound:
  "wp m (sound P) s \<Longrightarrow> (\<And>a t. P a t \<Longrightarrow> wp k (sound R) t) \<Longrightarrow> wp (andthen m k) (sound R) s"
  by (simp add: andthen_def wp_bnd_sound)

lemma wp_sound_run: "wp m (sound P) s \<Longrightarrow> m s \<noteq> (Fault f, t)"
  by (auto simp: wp_def)

text \<open>The same with a set of faults that are not excluded.\<close>

definition only :: "fault set \<Rightarrow> ('a \<Rightarrow> 's \<Rightarrow> bool) \<Rightarrow> 'a outcome \<Rightarrow> 's \<Rightarrow> bool" where
  "only F P r s = (case r of Ok a \<Rightarrow> P a s | Exit c \<Rightarrow> True | Fault f \<Rightarrow> f \<in> F)"

lemma only_simps [simp]:
  "only F P (Ok a) = P a" "only F P (Exit c) s" "only F P (Fault f) s \<longleftrightarrow> f \<in> F"
  by (simp_all add: only_def fun_eq_iff)

lemma after_only [simp]: "after K (only F P) = only F K"
  by (intro ext) (simp add: after_def only_def split: outcome.split)

lemma only_mono: "only F P r t \<Longrightarrow> (\<And>a. P a t \<Longrightarrow> R a t) \<Longrightarrow> only F R r t"
  by (simp add: only_def split: outcome.splits)

lemma wp_bnd_only:
  "wp m (only F P) s \<Longrightarrow> (\<And>a t. P a t \<Longrightarrow> wp (f a) (only F R) t) \<Longrightarrow> wp (bnd m f) (only F R) s"
  by (simp add: wp_bnd) (erule wp_mono, auto elim: only_mono)

lemma wp_andthen_only:
  "wp m (only F P) s \<Longrightarrow> (\<And>a t. P a t \<Longrightarrow> wp k (only F R) t) \<Longrightarrow> wp (andthen m k) (only F R) s"
  by (simp add: andthen_def wp_bnd_only)

lemma on_ok_only: "on_ok P = only UNIV P"
  by (intro ext) (simp add: on_ok_def only_def split: outcome.split)

lemma sound_only: "sound P = only {} P"
  by (intro ext) (simp add: sound_def only_def split: outcome.split)

lemma wp_conj: "wp m Q s \<Longrightarrow> wp m R s \<Longrightarrow> wp m (\<lambda>r t. Q r t \<and> R r t) s"
  by (simp add: wp_def)

lemma wp_conj_ok:
  "wp m (on_ok P) s \<Longrightarrow> wp m (on_ok R) s \<Longrightarrow> wp m (on_ok (\<lambda>a t. P a t \<and> R a t)) s"
  by (simp add: wp_def on_ok_def split: outcome.splits)

lemma wp_iff: "wp m Q s \<longleftrightarrow> (\<forall>r t. m s = (r, t) \<longrightarrow> Q r t)"
  by (cases "m s") (simp add: wp_def)

lemma wpD: "wp m Q s \<Longrightarrow> m s = (r, t) \<Longrightarrow> Q r t"
  by (simp add: wp_def)

lemma wpI: "(\<And>r t. m s = (r, t) \<Longrightarrow> Q r t) \<Longrightarrow> wp m Q s"
  by (simp add: wp_iff)

text \<open>
  Loop rules: an invariant kept by the body on every outcome is kept by the loop. The
  relational form \<open>I s t\<close> keeps the start state in view.
\<close>

definition keeps :: "('s, 'a) comp \<Rightarrow> ('s \<Rightarrow> bool) \<Rightarrow> bool" where
  "keeps m I \<longleftrightarrow> (\<forall>s. I s \<longrightarrow> wp m (\<lambda>_. I) s)"

lemma keepsI: "(\<And>s. I s \<Longrightarrow> wp m (\<lambda>_. I) s) \<Longrightarrow> keeps m I"
  by (simp add: keeps_def)

lemma keepsD: "keeps m I \<Longrightarrow> I s \<Longrightarrow> wp m (\<lambda>_. I) s"
  by (simp add: keeps_def)

lemma keeps_run: "keeps m I \<Longrightarrow> I s \<Longrightarrow> m s = (r, t) \<Longrightarrow> I t"
  by (auto simp: keeps_def wp_iff)

lemma keeps_basic [intro]:
  "keeps (ret a) I" "keeps (exit_with c) I" "keeps (fail f) I" "keeps get_state I"
  by (simp_all add: keeps_def wp_simps)

lemma keeps_bnd [intro]: "keeps m I \<Longrightarrow> (\<And>a. keeps (f a) I) \<Longrightarrow> keeps (bnd m f) I"
  by (auto simp: keeps_def wp_def bnd_def split: prod.split outcome.split)

lemma keeps_andthen [intro]: "keeps m I \<Longrightarrow> keeps k I \<Longrightarrow> keeps (andthen m k) I"
  by (simp add: andthen_def keeps_bnd)

lemma keeps_if [intro]: "(b \<Longrightarrow> keeps m I) \<Longrightarrow> (\<not> b \<Longrightarrow> keeps k I) \<Longrightarrow> keeps (if b then m else k) I"
  by simp

lemma keeps_when [intro]: "(b \<Longrightarrow> keeps m I) \<Longrightarrow> keeps (when_c b m) I"
  by (simp add: when_c_def keeps_basic)

lemma keeps_for [intro]: "(\<And>x. x \<in> set xs \<Longrightarrow> keeps (f x) I) \<Longrightarrow> keeps (for_list f xs) I"
  by (induction xs) (auto simp: keeps_basic intro: keeps_bnd)

lemma keeps_rounds [intro]: "keeps m I \<Longrightarrow> keeps (rounds n m) I"
  by (induction n) (auto simp: keeps_basic intro: keeps_bnd)

text \<open>
  Extended rule for loops whose body may leave the process: the invariant is only
  required while the loop goes on, and \<open>Q\<close> is what holds where it stops.
\<close>

lemma wp_for_list:
  assumes "I s"
    and "\<And>x s. x \<in> set xs \<Longrightarrow> I s \<Longrightarrow> wp (f x) (after (\<lambda>_. I) Q) s"
    and "\<And>s. I s \<Longrightarrow> Q (Ok ()) s"
  shows "wp (for_list f xs) Q s"
  using assms(1,2)
proof (induction xs arbitrary: s)
  case Nil
  then show ?case by (simp add: wp_simps assms(3))
next
  case (Cons x xs)
  have "wp (f x) (after (\<lambda>_. I) Q) s"
    using Cons.prems by simp
  then have "wp (f x) (after (\<lambda>_. wp (for_list f xs) Q) Q) s"
    by (rule wp_mono) (use Cons in \<open>auto simp: after_def split: outcome.splits\<close>)
  then show ?case by (simp add: wp_simps)
qed

lemma wp_rounds:
  assumes "I s"
    and "\<And>s. I s \<Longrightarrow> wp m (after (\<lambda>_. I) Q) s"
    and "\<And>s. I s \<Longrightarrow> Q (Ok ()) s"
  shows "wp (rounds n m) Q s"
  using assms(1)
proof (induction n arbitrary: s)
  case 0
  then show ?case by (simp add: wp_simps assms(3))
next
  case (Suc n)
  from Suc.prems have "wp m (after (\<lambda>_. I) Q) s"
    by (rule assms(2))
  then have "wp m (after (\<lambda>_. wp (rounds n m) Q) Q) s"
    by (rule wp_mono) (use Suc in \<open>auto simp: after_def split: outcome.splits\<close>)
  then show ?case by (simp add: wp_simps)
qed

lemma wp_for_list_ok:
  assumes "I s" and "\<And>x s. x \<in> set xs \<Longrightarrow> I s \<Longrightarrow> wp (f x) (on_ok (\<lambda>_. I)) s"
  shows "wp (for_list f xs) (on_ok (\<lambda>_. I)) s"
  by (rule wp_for_list [where I = I]) (use assms in auto)

lemma wp_rounds_ok:
  assumes "I s" and "\<And>s. I s \<Longrightarrow> wp m (on_ok (\<lambda>_. I)) s"
  shows "wp (rounds n m) (on_ok (\<lambda>_. I)) s"
  by (rule wp_rounds [where I = I]) (use assms in auto)

lemma wp_for_list_only:
  assumes "I s" and "\<And>x s. x \<in> set xs \<Longrightarrow> I s \<Longrightarrow> wp (f x) (only F (\<lambda>_. I)) s"
  shows "wp (for_list f xs) (only F (\<lambda>_. I)) s"
  by (rule wp_for_list [where I = I]) (use assms in auto)

lemma wp_for_list_sound:
  assumes "I s" and "\<And>x s. x \<in> set xs \<Longrightarrow> I s \<Longrightarrow> wp (f x) (sound (\<lambda>_. I)) s"
  shows "wp (for_list f xs) (sound (\<lambda>_. I)) s"
  by (rule wp_for_list [where I = I]) (use assms in auto)

lemma wp_rounds_only:
  assumes "I s" and "\<And>s. I s \<Longrightarrow> wp m (only F (\<lambda>_. I)) s"
  shows "wp (rounds n m) (only F (\<lambda>_. I)) s"
  by (rule wp_rounds [where I = I]) (use assms in auto)

lemma wp_rounds_sound:
  assumes "I s" and "\<And>s. I s \<Longrightarrow> wp m (sound (\<lambda>_. I)) s"
  shows "wp (rounds n m) (sound (\<lambda>_. I)) s"
  by (rule wp_rounds [where I = I]) (use assms in auto)

end
