(* ===== verification/C_Std.thy ===== *)
theory C_Std
  imports IO_Prelude "HOL-Library.Signed_Division"
begin

text \<open>
  The parts of the C library the programs compute with: number parsing
  (\<^verbatim>\<open>strtol\<close>, \<^verbatim>\<open>atoi\<close>, \<^verbatim>\<open>strtoull\<close>), byte order (\<^verbatim>\<open>htons\<close>, \<^verbatim>\<open>ntohs\<close>),
  little-endian object representations, and array access with its bounds.
\<close>

section \<open>Number parsing\<close>

definition isspace :: "char \<Rightarrow> bool" where
  "isspace c \<longleftrightarrow> c = CHR '' '' \<or> (9 \<le> (of_char c :: nat) \<and> (of_char c :: nat) \<le> 13)"

text \<open>The value of a digit in bases up to 16, and \<^const>\<open>None\<close> for any other character.\<close>

definition digit_val :: "char \<Rightarrow> nat option" where
  "digit_val c = (let n = (of_char c :: nat) in
     if 48 \<le> n \<and> n \<le> 57 then Some (n - 48)
     else if 97 \<le> n \<and> n \<le> 102 then Some (n - 87)
     else if 65 \<le> n \<and> n \<le> 70 then Some (n - 55)
     else None)"

definition is_digit :: "nat \<Rightarrow> char \<Rightarrow> bool" where
  "is_digit b c \<longleftrightarrow> (case digit_val c of None \<Rightarrow> False | Some d \<Rightarrow> d < b)"

definition digits_val :: "nat \<Rightarrow> string \<Rightarrow> nat" where
  "digits_val b ds = foldl (\<lambda>acc c. acc * b + (case digit_val c of None \<Rightarrow> 0 | Some d \<Rightarrow> d)) 0 ds"

fun split_sign :: "string \<Rightarrow> bool \<times> string" where
  "split_sign [] = (False, [])"
| "split_sign (c # cs) =
     (if c = CHR ''-'' then (True, cs) else if c = CHR ''+'' then (False, cs) else (False, c # cs))"

text \<open>\<^verbatim>\<open>strtol (s, NULL, 10)\<close>: saturates at the bounds of a 64-bit \<^verbatim>\<open>long\<close>.\<close>

definition strtol10 :: "string \<Rightarrow> int" where
  "strtol10 s = (let (neg, t) = split_sign (dropWhile isspace s);
       v = int (digits_val 10 (takeWhile (is_digit 10) t))
     in if neg then max (- (2 ^ 63)) (- v) else min (2 ^ 63 - 1) v)"

definition atoi :: "string \<Rightarrow> int" where
  "atoi s = to_i32 (strtol10 s)"

text \<open>\<^verbatim>\<open>strtoull (s, NULL, 0)\<close>: the base is read off the prefix, overflow saturates, and a
  minus sign negates modulo \<open>2 ^ 64\<close>.\<close>

definition ull_base :: "string \<Rightarrow> nat \<times> string" where
  "ull_base t = (case t of
      c # x # d # ds \<Rightarrow>
        if c = CHR ''0'' \<and> (x = CHR ''x'' \<or> x = CHR ''X'') \<and> is_digit 16 d then (16, d # ds)
        else if c = CHR ''0'' then (8, t) else (10, t)
    | c # cs \<Rightarrow> if c = CHR ''0'' then (8, t) else (10, t)
    | [] \<Rightarrow> (10, t))"

definition strtoull0 :: "string \<Rightarrow> u64" where
  "strtoull0 s = (let (neg, t) = split_sign (dropWhile isspace s);
       (b, ds) = ull_base t;
       v = digits_val b (takeWhile (is_digit b) ds)
     in if 2 ^ 64 \<le> v then - 1 else if neg then - of_nat v else of_nat v)"

section \<open>Decimal numerals\<close>

fun show_nat :: "nat \<Rightarrow> string" where
  "show_nat n = (if n < 10 then [char_of (48 + n)] else show_nat (n div 10) @ [char_of (48 + n mod 10)])"

declare show_nat.simps [simp del]

lemma digit_val_char: "d < 10 \<Longrightarrow> digit_val (char_of (48 + d)) = Some d"
  by (simp add: digit_val_def Let_def)

lemma digits_val_snoc:
  "digits_val b (ds @ [c]) = digits_val b ds * b + (case digit_val c of None \<Rightarrow> 0 | Some d \<Rightarrow> d)"
  by (simp add: digits_val_def)

lemma show_nat_val: "digits_val 10 (show_nat n) = n"
proof (induction n rule: show_nat.induct)
  case (1 n)
  show ?case
  proof (cases "n < 10")
    case True
    then show ?thesis
      by (subst show_nat.simps) (simp add: digits_val_def digit_val_char)
  next
    case False
    have "digits_val 10 (show_nat (n div 10) @ [char_of (48 + n mod 10)]) = n div 10 * 10 + n mod 10"
      using "1.IH" False by (simp add: digits_val_snoc digit_val_char)
    then show ?thesis
      using False by (subst show_nat.simps) simp
  qed
qed

lemma show_nat_digits: "\<forall>c \<in> set (show_nat n). \<exists>d < 10. c = char_of (48 + d :: nat)"
proof (induction n rule: show_nat.induct)
  case (1 n)
  have "n mod 10 < 10" by simp
  then have last: "\<exists>d < 10. (char_of (48 + n mod 10) :: char) = char_of (48 + d :: nat)"
    by blast
  show ?case
    by (subst show_nat.simps) (use 1 last in auto)
qed

lemma show_nat_nonempty: "show_nat n \<noteq> []"
  by (subst show_nat.simps) simp

lemma decimal_digit_char:
  assumes "d < 10" and "c = char_of (48 + d :: nat)"
  shows "is_digit 10 c" and "\<not> isspace c" and "c \<noteq> CHR ''-''" and "c \<noteq> CHR ''+''"
proof -
  have v: "(of_char c :: nat) = 48 + d"
    using assms by simp
  show "is_digit 10 c"
    using assms by (simp add: is_digit_def digit_val_char)
  show "c \<noteq> CHR ''-''" and "c \<noteq> CHR ''+''" and "\<not> isspace c"
    using v by (auto simp: isspace_def)
qed

lemma takeWhile_show_nat: "takeWhile (is_digit 10) (show_nat n) = show_nat n"
  using show_nat_digits decimal_digit_char(1) by (fastforce simp: takeWhile_eq_all_conv)

lemma split_sign_show_nat: "split_sign (dropWhile isspace (show_nat n)) = (False, show_nat n)"
proof (cases "show_nat n")
  case Nil
  then show ?thesis by (simp add: show_nat_nonempty)
next
  case (Cons c cs)
  then obtain d where "d < 10" "c = char_of (48 + d :: nat)"
    using show_nat_digits [of n] by auto
  then show ?thesis
    using Cons decimal_digit_char [of d c] by simp
qed

lemma is_i32I: "0 \<le> i \<Longrightarrow> i < 2 ^ 31 \<Longrightarrow> is_i32 i"
  by (simp add: is_i32_def)

lemma to_i32_id [simp]: "is_i32 i \<Longrightarrow> to_i32 i = i"
  by (simp add: to_i32_def is_i32_def sint_sbintrunc' signed_take_bit_int_eq_self)

lemma to_i32_range: "is_i32 (to_i32 i)"
  using sint_greater_eq [of "word_of_int i :: u32"] sint_less [of "word_of_int i :: u32"]
  by (simp add: to_i32_def is_i32_def)

lemma atoi_show_nat: "n < 2 ^ 31 \<Longrightarrow> atoi (show_nat n) = int n"
  by (simp add: atoi_def strtol10_def split_sign_show_nat takeWhile_show_nat show_nat_val
      is_i32_def)

section \<open>Byte order\<close>

definition htons :: "u16 \<Rightarrow> u16" where
  "htons x = push_bit 8 x OR drop_bit 8 x"

definition ntohs :: "u16 \<Rightarrow> u16" where
  "ntohs x = push_bit 8 x OR drop_bit 8 x"

lemma ntohs_htons [simp]: "ntohs (htons x) = x"
proof (rule bit_word_eqI)
  fix n :: nat
  assume "n < LENGTH(16)"
  then show "bit (ntohs (htons x)) n \<longleftrightarrow> bit x n"
    by (auto simp: htons_def ntohs_def bit_or_iff bit_push_bit_iff bit_drop_bit_eq
        dest: bit_imp_le_length)
qed

section \<open>Array access\<close>

text \<open>
  An array is a list. An index outside of it is undefined behaviour in C and the fault
  \<^const>\<open>Out_Of_Bounds\<close> here.
\<close>

definition in_bounds :: "'a list \<Rightarrow> int \<Rightarrow> bool" where
  "in_bounds xs i \<longleftrightarrow> 0 \<le> i \<and> i < int (length xs)"

definition read_arr :: "'a list \<Rightarrow> int \<Rightarrow> ('s, 'a) comp" where
  "read_arr xs i = (if in_bounds xs i then ret (xs ! nat i) else fail Out_Of_Bounds)"

definition write_arr :: "'a list \<Rightarrow> int \<Rightarrow> 'a \<Rightarrow> ('a list \<Rightarrow> ('s, 'b) comp) \<Rightarrow> ('s, 'b) comp" where
  "write_arr xs i v k = (if in_bounds xs i then k (xs[nat i := v]) else fail Out_Of_Bounds)"

lemma wp_read_arr [wp_simps]:
  "wp (read_arr xs i) Q s = (if in_bounds xs i then Q (Ok (xs ! nat i)) s else Q (Fault Out_Of_Bounds) s)"
  by (simp add: read_arr_def wp_simps)

lemma wp_write_arr [wp_simps]:
  "wp (write_arr xs i v k) Q s =
    (if in_bounds xs i then wp (k (xs[nat i := v])) Q s else Q (Fault Out_Of_Bounds) s)"
  by (simp add: write_arr_def wp_simps)

text \<open>A loop over the indices of an array is a loop over its elements.\<close>

lemma upto_int: "[0..int n - 1] = map int [0..<n]"
proof (induction n)
  case (Suc n)
  have "[0..int (Suc n) - 1] = [0..int n - 1] @ [int n]"
    using upto_rec2 [of 0 "int n"] by simp
  with Suc show ?case by simp
qed simp

lemma for_index:
  "for_list (\<lambda>i. bnd (read_arr xs i) f) [0..int (length xs) - 1] = for_list f xs"
proof -
  have *: "\<forall>i \<in> set is. i < length xs \<Longrightarrow>
      for_list (\<lambda>i. bnd (read_arr xs i) f) (map int is) = for_list f (map ((!) xs) is)" for "is"
    by (induction "is") (simp_all add: read_arr_def in_bounds_def bnd_ret)
  show ?thesis
    using * [of "[0..<length xs]"] by (simp add: upto_int map_nth)
qed

end
