(* ===== verification/Host.thy ===== *)
theory Host
  imports C_Std
begin

text \<open>
  The boundary between the programs and the code they call but do not contain: liburing
  (a git submodule of the repository), the Linux system calls, and the allocator. Each
  such function is a field of an environment record, a parameter of every definition that
  calls it; a field maps the calls made so far, and the arguments of this one, to the
  answer. The only trace a call leaves in the model is an event of the log, so nothing is
  assumed of an environment here; what a theorem relies on it states as a hypothesis.
\<close>

section \<open>Data exchanged with the environment\<close>

text \<open>
  Pointers as the programs form them: element \<open>i\<close> of a named object of static or
  allocated storage, or an automatic variable of a function.
\<close>

datatype ptr =
    NULL
  | Obj string int
  | Auto string string

record iovec =
  iov_base :: ptr
  iov_len :: nat

record sockaddr_in =
  sin_family :: int
  sin_port :: u16
  sin_addr :: u32

text \<open>The request a \<^verbatim>\<open>io_uring_prep_*\<close> helper encodes, with the helper's arguments.\<close>

datatype sqe_op =
    Op_accept int ptr ptr int
  | Op_recv int ptr nat int
  | Op_send int ptr nat int
  | Op_recvmsg int ptr int
  | Op_sendmsg int ptr int
  | Op_provide_buffers ptr nat nat int int
  | Op_poll_add int int
  | Op_readv int ptr nat int
  | Op_writev int ptr nat int
  | Op_write int ptr nat int

text \<open>The 64-bit \<^verbatim>\<open>user_data\<close>: bytes copied into it, or a pointer stored in it.\<close>

datatype udata = Raw u64 | Ref ptr

record sqe =
  sq_op :: sqe_op
  sq_flags :: u8
  sq_len :: u32
  sq_buf_group :: u16
  sq_user_data :: udata

record cqe =
  cq_user_data :: udata
  cq_res :: int
  cq_flags :: u32

record epoll_event =
  ep_events :: u32
  ep_fd :: int

datatype epoll_op = EPOLL_CTL_ADD | EPOLL_CTL_DEL

section \<open>The log\<close>

datatype event =
    Ev_socket int int int int
  | Ev_setsockopt int
  | Ev_bind int sockaddr_in int
  | Ev_listen int int int
  | Ev_accept int int int
  | Ev_recv int nat "byte list" int
  | Ev_send int "byte list" int
  | Ev_shutdown int
  | Ev_close int
  | Ev_epoll_create int int
  | Ev_epoll_ctl int epoll_op int u32 int
  | Ev_epoll_wait int "epoll_event list"
  | Ev_queue_init nat u32 int
  | Ev_probe bool
  | Ev_sqe sqe
  | Ev_submit int
  | Ev_submit_and_wait int int
  | Ev_wait_cqe int
  | Ev_peek int
  | Ev_cqe cqe
  | Ev_cqe_seen
  | Ev_cq_advance nat
  | Ev_register_files "int list" int
  | Ev_register_files_update int int int
  | Ev_register_ring_fd int
  | Ev_register_buf_ring ptr nat int int
  | Ev_buf_ring_add ptr nat int int int
  | Ev_buf_ring_advance int
  | Ev_queue_exit
  | Ev_auto ptr iovec
  | Ev_auto_end ptr
  | Ev_getrlimit int nat
  | Ev_thread
  | Ev_malloc ptr nat
  | Ev_free ptr
  | Ev_read_callback "iovec list" int
  | Ev_write_callback int int
  | Ev_pipe int int int
  | Ev_write int "byte list" int
  | Ev_read int nat "byte list" int
  | Ev_time int int
  | Ev_eventfd int
  | Ev_fork int

record io =
  log :: "event list"

text \<open>
  The state of a program is \<^typ>\<open>io\<close> extended by the program's own variables. A call
  asks the environment and appends its event.
\<close>

definition emit :: "event \<Rightarrow> ('x io_scheme, unit) comp" where
  "emit ev s = (Ok (), s\<lparr>log := log s @ [ev]\<rparr>)"

definition ask :: "(event list \<Rightarrow> 'a) \<Rightarrow> ('a \<Rightarrow> event) \<Rightarrow> ('x io_scheme, 'a) comp" where
  "ask f ev s = (Ok (f (log s)), s\<lparr>log := log s @ [ev (f (log s))]\<rparr>)"

definition look :: "(event list \<Rightarrow> 'a) \<Rightarrow> ('x io_scheme, 'a) comp" where
  "look f s = (Ok (f (log s)), s)"

lemma wp_emit [wp_simps]: "wp (emit ev) Q s = Q (Ok ()) (s\<lparr>log := log s @ [ev]\<rparr>)"
  by (simp add: wp_def emit_def)

lemma wp_ask [wp_simps]:
  "wp (ask f ev) Q s = Q (Ok (f (log s))) (s\<lparr>log := log s @ [ev (f (log s))]\<rparr>)"
  by (simp add: wp_def ask_def)

lemma wp_look [wp_simps]: "wp (look f) Q s = Q (Ok (f (log s))) s"
  by (simp add: wp_def look_def)

declare emit_def [comp_simps] ask_def [comp_simps] look_def [comp_simps]

section \<open>Constants of the system headers\<close>

abbreviation (input) AF_INET :: int where "AF_INET \<equiv> 2"
abbreviation (input) SOCK_STREAM :: int where "SOCK_STREAM \<equiv> 1"
abbreviation (input) SOCK_NONBLOCK :: int where "SOCK_NONBLOCK \<equiv> 2048"
abbreviation (input) INADDR_ANY :: u32 where "INADDR_ANY \<equiv> 0"
abbreviation (input) SOMAXCONN :: int where "SOMAXCONN \<equiv> 4096"
abbreviation (input) EFAULT :: int where "EFAULT \<equiv> 14"
abbreviation (input) EINVAL :: int where "EINVAL \<equiv> 22"
abbreviation (input) EMSGSIZE :: int where "EMSGSIZE \<equiv> 90"
abbreviation (input) ENOBUFS :: int where "ENOBUFS \<equiv> 105"
abbreviation (input) EPOLLIN :: u32 where "EPOLLIN \<equiv> 1"
abbreviation (input) EPOLLERR :: u32 where "EPOLLERR \<equiv> 8"
abbreviation (input) EPOLLHUP :: u32 where "EPOLLHUP \<equiv> 16"
abbreviation (input) EPOLLET :: u32 where "EPOLLET \<equiv> 0x80000000"
abbreviation (input) POLLIN :: int where "POLLIN \<equiv> 1"
abbreviation (input) IOSQE_FIXED_FILE :: u8 where "IOSQE_FIXED_FILE \<equiv> 1"
abbreviation (input) IOSQE_BUFFER_SELECT :: u32 where "IOSQE_BUFFER_SELECT \<equiv> 32"
abbreviation (input) IORING_CQE_F_BUFFER :: u32 where "IORING_CQE_F_BUFFER \<equiv> 1"
abbreviation (input) IORING_SETUP_SQPOLL :: u32 where "IORING_SETUP_SQPOLL \<equiv> 2"
abbreviation (input) IORING_SETUP_SINGLE_ISSUER :: u32 where "IORING_SETUP_SINGLE_ISSUER \<equiv> 4096"
abbreviation (input) IORING_FEAT_FAST_POLL :: u32 where "IORING_FEAT_FAST_POLL \<equiv> 32"

section \<open>Sockets and epoll\<close>

record sock =
  k_socket :: "event list \<Rightarrow> int"
  k_bind :: "event list \<Rightarrow> int"
  k_listen :: "event list \<Rightarrow> int"
  k_accept :: "event list \<Rightarrow> int"
  k_recv :: "event list \<Rightarrow> int \<Rightarrow> nat \<Rightarrow> byte list \<times> int"
  k_send :: "event list \<Rightarrow> int \<Rightarrow> byte list \<Rightarrow> int"
  k_epoll_create :: "event list \<Rightarrow> int"
  k_epoll_ctl :: "event list \<Rightarrow> epoll_op \<Rightarrow> int \<Rightarrow> int"
  k_epoll_wait :: "event list \<Rightarrow> int \<times> epoll_event list"

definition socket_c :: "sock \<Rightarrow> int \<Rightarrow> int \<Rightarrow> int \<Rightarrow> ('x io_scheme, int) comp" where
  "socket_c k fam ty pr = ask (k_socket k) (Ev_socket fam ty pr)"

definition bind_c :: "sock \<Rightarrow> int \<Rightarrow> sockaddr_in \<Rightarrow> ('x io_scheme, int) comp" where
  "bind_c k fd a = ask (k_bind k) (Ev_bind fd a)"

definition listen_c :: "sock \<Rightarrow> int \<Rightarrow> int \<Rightarrow> ('x io_scheme, int) comp" where
  "listen_c k fd backlog = ask (k_listen k) (Ev_listen fd backlog)"

definition accept_c :: "sock \<Rightarrow> int \<Rightarrow> int \<Rightarrow> ('x io_scheme, int) comp" where
  "accept_c k fd flags = ask (k_accept k) (Ev_accept fd flags)"

text \<open>A receive answers with the bytes it stored and the count it returned.\<close>

definition recv_c :: "sock \<Rightarrow> int \<Rightarrow> nat \<Rightarrow> ('x io_scheme, byte list \<times> int) comp" where
  "recv_c k fd len = ask (\<lambda>h. k_recv k h fd len) (\<lambda>(d, n). Ev_recv fd len d n)"

definition send_c :: "sock \<Rightarrow> int \<Rightarrow> byte list \<Rightarrow> ('x io_scheme, int) comp" where
  "send_c k fd d = ask (\<lambda>h. k_send k h fd d) (Ev_send fd d)"

definition shutdown_c :: "int \<Rightarrow> ('x io_scheme, unit) comp" where
  "shutdown_c fd = emit (Ev_shutdown fd)"

definition close_c :: "int \<Rightarrow> ('x io_scheme, unit) comp" where
  "close_c fd = emit (Ev_close fd)"

definition epoll_create_c :: "sock \<Rightarrow> int \<Rightarrow> ('x io_scheme, int) comp" where
  "epoll_create_c k arg = ask (k_epoll_create k) (Ev_epoll_create arg)"

definition epoll_ctl_c :: "sock \<Rightarrow> int \<Rightarrow> epoll_op \<Rightarrow> int \<Rightarrow> u32 \<Rightarrow> ('x io_scheme, int) comp" where
  "epoll_ctl_c k ep op fd evs = ask (\<lambda>h. k_epoll_ctl k h op fd) (Ev_epoll_ctl ep op fd evs)"

definition epoll_wait_c :: "sock \<Rightarrow> int \<Rightarrow> nat \<Rightarrow> ('x io_scheme, int \<times> epoll_event list) comp" where
  "epoll_wait_c k ep maxevents = ask (k_epoll_wait k) (\<lambda>(n, es). Ev_epoll_wait n es)"

section \<open>liburing\<close>

record uring =
  u_queue_init :: "event list \<Rightarrow> int"
  u_queue_init_params :: "event list \<Rightarrow> int \<times> u32"
  u_probe :: "event list \<Rightarrow> bool option"
  u_get_sqe :: "event list \<Rightarrow> sqe option"
  u_prep :: "sqe_op \<Rightarrow> sqe \<Rightarrow> sqe"
  u_set_flags :: "sqe \<Rightarrow> u32 \<Rightarrow> sqe"
  u_set_data :: "sqe \<Rightarrow> ptr \<Rightarrow> sqe"
  u_submit :: "event list \<Rightarrow> int"
  u_submit_and_wait :: "event list \<Rightarrow> int \<Rightarrow> int"
  u_wait_cqe :: "event list \<Rightarrow> int \<times> cqe option"
  u_peek_cqe :: "event list \<Rightarrow> int \<times> cqe option"
  u_cqes :: "event list \<Rightarrow> cqe list"
  u_reread :: "event list \<Rightarrow> cqe \<Rightarrow> cqe"
  u_reg_files :: "event list \<Rightarrow> int"
  u_reg_file_slot :: "event list \<Rightarrow> int \<Rightarrow> int"
  u_reg_ring_fd :: "event list \<Rightarrow> int"
  u_reg_buf_ring :: "event list \<Rightarrow> int"

text \<open>
  \<^verbatim>\<open>io_uring_get_sqe\<close> hands out a slot of the submission ring (with whatever the slot held)
  or \<^verbatim>\<open>NULL\<close>. No program of the repository tests for \<^verbatim>\<open>NULL\<close>: the next helper
  dereferences the pointer. \<open>queue_sqe\<close> is this shape: get a slot, write it, and the
  request is in the ring for the next submit.
\<close>

definition queue_sqe :: "uring \<Rightarrow> (sqe \<Rightarrow> sqe) \<Rightarrow> ('x io_scheme, unit) comp" where
  "queue_sqe u fill = bnd (look (u_get_sqe u)) (\<lambda>slot. case slot of
      None \<Rightarrow> fail Null_Deref
    | Some q \<Rightarrow> emit (Ev_sqe (fill q)))"

text \<open>The slot alone, where a function does other work before the request is complete.\<close>

definition get_sqe :: "uring \<Rightarrow> ('x io_scheme, sqe) comp" where
  "get_sqe u = bnd (look (u_get_sqe u)) (\<lambda>slot. case slot of None \<Rightarrow> fail Null_Deref | Some q \<Rightarrow> ret q)"

definition io_uring_submit :: "uring \<Rightarrow> ('x io_scheme, int) comp" where
  "io_uring_submit u = ask (u_submit u) Ev_submit"

definition io_uring_submit_and_wait :: "uring \<Rightarrow> int \<Rightarrow> ('x io_scheme, int) comp" where
  "io_uring_submit_and_wait u n = ask (\<lambda>h. u_submit_and_wait u h n) (Ev_submit_and_wait n)"

text \<open>
  A completion that the program looks at is logged by \<^const>\<open>Ev_cqe\<close>. Waiting and peeking
  answer with the code returned and the completion stored through the pointer, if any.
\<close>

definition see_cqe :: "cqe option \<Rightarrow> ('x io_scheme, unit) comp" where
  "see_cqe c = (case c of None \<Rightarrow> ret () | Some q \<Rightarrow> emit (Ev_cqe q))"

definition io_uring_wait_cqe :: "uring \<Rightarrow> ('x io_scheme, int \<times> cqe option) comp" where
  "io_uring_wait_cqe u = bnd (ask (u_wait_cqe u) (\<lambda>(r, _). Ev_wait_cqe r))
     (\<lambda>(r, c). andthen (see_cqe c) (ret (r, c)))"

definition io_uring_peek_cqe :: "uring \<Rightarrow> ('x io_scheme, int \<times> cqe option) comp" where
  "io_uring_peek_cqe u = bnd (ask (u_peek_cqe u) (\<lambda>(r, _). Ev_peek r))
     (\<lambda>(r, c). andthen (see_cqe c) (ret (r, c)))"

text \<open>
  \<^verbatim>\<open>io_uring_for_each_cqe\<close> and the loop over \<^verbatim>\<open>io_uring_peek_batch_cqe\<close>: the body runs
  for each visible completion in ring order; the result is how many there were.
\<close>

definition for_each_cqe :: "uring \<Rightarrow> (cqe \<Rightarrow> ('x io_scheme, unit) comp) \<Rightarrow> ('x io_scheme, nat) comp" where
  "for_each_cqe u body = bnd (look (u_cqes u)) (\<lambda>cs.
     andthen (for_list (\<lambda>c. andthen (emit (Ev_cqe c)) (body c)) cs) (ret (length cs)))"

definition deref_cqe :: "cqe option \<Rightarrow> ('x io_scheme, cqe) comp" where
  "deref_cqe c = (case c of None \<Rightarrow> fail Null_Deref | Some q \<Rightarrow> ret q)"

definition io_uring_cqe_seen :: "('x io_scheme, unit) comp" where
  "io_uring_cqe_seen = emit Ev_cqe_seen"

definition io_uring_cq_advance :: "nat \<Rightarrow> ('x io_scheme, unit) comp" where
  "io_uring_cq_advance n = emit (Ev_cq_advance n)"

definition queue_init_params :: "uring \<Rightarrow> nat \<Rightarrow> u32 \<Rightarrow> ('x io_scheme, int \<times> u32) comp" where
  "queue_init_params u entries flags =
     ask (u_queue_init_params u) (\<lambda>(r, _). Ev_queue_init entries flags r)"

definition queue_init_c :: "uring \<Rightarrow> nat \<Rightarrow> u32 \<Rightarrow> ('x io_scheme, int) comp" where
  "queue_init_c u entries flags = ask (u_queue_init u) (Ev_queue_init entries flags)"

text \<open>\<^verbatim>\<open>io_uring_get_probe_ring\<close> with \<^verbatim>\<open>io_uring_opcode_supported\<close> for provided buffers.\<close>

definition probe_provide_buffers :: "uring \<Rightarrow> ('x io_scheme, bool) comp" where
  "probe_provide_buffers u = ask (\<lambda>h. u_probe u h = Some True) Ev_probe"

definition register_files_c :: "uring \<Rightarrow> int list \<Rightarrow> ('x io_scheme, int) comp" where
  "register_files_c u fs = ask (u_reg_files u) (Ev_register_files fs)"

definition register_files_update_c :: "uring \<Rightarrow> int \<Rightarrow> int \<Rightarrow> ('x io_scheme, int) comp" where
  "register_files_update_c u slot fd = ask (\<lambda>h. u_reg_file_slot u h slot) (Ev_register_files_update slot fd)"

definition register_buf_ring_c :: "uring \<Rightarrow> ptr \<Rightarrow> nat \<Rightarrow> int \<Rightarrow> ('x io_scheme, int) comp" where
  "register_buf_ring_c u p entries bgid = ask (u_reg_buf_ring u) (Ev_register_buf_ring p entries bgid)"

lemmas cqe_defs =
  for_each_cqe_def see_cqe_def deref_cqe_def io_uring_wait_cqe_def io_uring_peek_cqe_def queue_sqe_def get_sqe_def

lemmas host_defs =
  socket_c_def bind_c_def listen_c_def accept_c_def recv_c_def send_c_def shutdown_c_def
  close_c_def epoll_create_c_def epoll_ctl_c_def epoll_wait_c_def io_uring_submit_def
  io_uring_submit_and_wait_def io_uring_cqe_seen_def io_uring_cq_advance_def
  queue_init_params_def queue_init_c_def probe_provide_buffers_def register_files_c_def
  register_files_update_c_def register_buf_ring_c_def

section \<open>Pipes, files, time and processes\<close>

text \<open>
  \<^verbatim>\<open>pipe\<close> answers with its result and the two descriptors, \<^verbatim>\<open>read\<close> with the bytes stored
  and the count, \<^verbatim>\<open>gettimeofday\<close> with seconds and microseconds, \<^verbatim>\<open>fork\<close> with 0 in the
  child, the child's number in the parent, or -1.
\<close>

record posix =
  x_pipe :: "event list \<Rightarrow> int \<times> int \<times> int"
  x_write :: "event list \<Rightarrow> int \<Rightarrow> byte list \<Rightarrow> int"
  x_read :: "event list \<Rightarrow> int \<Rightarrow> nat \<Rightarrow> byte list \<times> int"
  x_time :: "event list \<Rightarrow> int \<times> int"
  x_eventfd :: "event list \<Rightarrow> int"
  x_fork :: "event list \<Rightarrow> int"

definition pipe_c :: "posix \<Rightarrow> ('x io_scheme, int \<times> int \<times> int) comp" where
  "pipe_c x = ask (x_pipe x) (\<lambda>(r, a, b). Ev_pipe r a b)"

definition write_c :: "posix \<Rightarrow> int \<Rightarrow> byte list \<Rightarrow> ('x io_scheme, int) comp" where
  "write_c x fd d = ask (\<lambda>h. x_write x h fd d) (Ev_write fd d)"

definition read_c :: "posix \<Rightarrow> int \<Rightarrow> nat \<Rightarrow> ('x io_scheme, byte list \<times> int) comp" where
  "read_c x fd len = ask (\<lambda>h. x_read x h fd len) (\<lambda>(d, n). Ev_read fd len d n)"

definition gettimeofday_c :: "posix \<Rightarrow> ('x io_scheme, int \<times> int) comp" where
  "gettimeofday_c x = ask (x_time x) (\<lambda>(a, b). Ev_time a b)"

definition eventfd_c :: "posix \<Rightarrow> ('x io_scheme, int) comp" where
  "eventfd_c x = ask (x_eventfd x) Ev_eventfd"

definition fork_c :: "posix \<Rightarrow> ('x io_scheme, int) comp" where
  "fork_c x = ask (x_fork x) Ev_fork"

lemmas posix_defs =
  pipe_c_def write_c_def read_c_def gettimeofday_c_def eventfd_c_def fork_c_def

text \<open>\<^verbatim>\<open>abort\<close>, as a failed \<^verbatim>\<open>assert\<close> and \<^verbatim>\<open>std::terminate\<close> call it: status 134 of the shell.\<close>

definition abort_c :: "('s, 'a) comp" where
  "abort_c = exit_with 134"

lemma wp_abort [wp_simps]: "wp abort_c Q = Q (Exit 134)"
  by (simp add: abort_c_def wp_exit)

declare abort_c_def [comp_simps]

section \<open>The allocator\<close>

text \<open>
  Whether an allocation succeeds is up to the environment. A block that \<^verbatim>\<open>malloc\<close> or
  \<^verbatim>\<open>posix_memalign\<close> returns is new: its address is the number of allocations so far.
  Freeing what is not allocated is undefined behaviour.
\<close>

record alloc =
  a_malloc :: "event list \<Rightarrow> nat \<Rightarrow> bool"
  a_rlimit :: "event list \<Rightarrow> int \<times> nat"

fun is_malloc :: "event \<Rightarrow> bool" where
  "is_malloc (Ev_malloc _ _) = True"
| "is_malloc _ = False"

definition new_block :: "event list \<Rightarrow> ptr" where
  "new_block h = Obj ''heap'' (int (length (filter is_malloc h)))"

definition alloc_step :: "ptr set \<Rightarrow> event \<Rightarrow> ptr set" where
  "alloc_step B e = (case e of
      Ev_malloc p _ \<Rightarrow> if p = NULL then B else insert p B
    | Ev_free p \<Rightarrow> B - {p}
    | _ \<Rightarrow> B)"

definition allocated :: "event list \<Rightarrow> ptr set" where
  "allocated h = foldl alloc_step {} h"

definition malloc_c :: "alloc \<Rightarrow> nat \<Rightarrow> ('x io_scheme, ptr) comp" where
  "malloc_c a n = ask (\<lambda>h. if a_malloc a h n then new_block h else NULL) (\<lambda>p. Ev_malloc p n)"

text \<open>Conversion of an \<^verbatim>\<open>off_t\<close> or \<^verbatim>\<open>int\<close> to \<^verbatim>\<open>size_t\<close>.\<close>

definition to_size :: "int \<Rightarrow> nat" where
  "to_size i = nat (i mod 2 ^ 64)"

text \<open>\<^verbatim>\<open>getrlimit (RLIMIT_NOFILE)\<close>: the code returned and the hard limit.\<close>

definition getrlimit_c :: "alloc \<Rightarrow> ('x io_scheme, int \<times> nat) comp" where
  "getrlimit_c a = ask (a_rlimit a) (\<lambda>(r, m). Ev_getrlimit r m)"

definition free_c :: "ptr \<Rightarrow> ('x io_scheme, unit) comp" where
  "free_c p = (if p = NULL then ret () else
     bnd (look allocated) (\<lambda>B. if p \<in> B then emit (Ev_free p) else fail Double_Free))"

section \<open>What liburing documents\<close>

text \<open>
  The SQE helpers, as their manual pages describe them: a prepare helper encodes the
  request and clears the flags, \<^verbatim>\<open>io_uring_sqe_set_flags\<close> sets the 8-bit flags field and
  \<^verbatim>\<open>io_uring_sqe_set_data\<close> the user data, and neither touches another field.
\<close>

definition sqe_helpers :: "uring \<Rightarrow> bool" where
  "sqe_helpers u \<longleftrightarrow>
     (\<forall>op q. sq_op (u_prep u op q) = op \<and> sq_flags (u_prep u op q) = 0) \<and>
     (\<forall>q f. u_set_flags u q f = q\<lparr>sq_flags := ucast f\<rparr>) \<and>
     (\<forall>q p. u_set_data u q p = q\<lparr>sq_user_data := Ref p\<rparr>)"

lemma sqe_helpersD:
  assumes "sqe_helpers u"
  shows "sq_op (u_prep u op q) = op" "sq_flags (u_prep u op q) = 0"
    "u_set_flags u q f = q\<lparr>sq_flags := ucast f\<rparr>" "u_set_data u q p = q\<lparr>sq_user_data := Ref p\<rparr>"
  using assms by (auto simp: sqe_helpers_def)

lemma wp_queue_sqe [wp_simps]:
  "wp (queue_sqe u fill) Q s = (case u_get_sqe u (log s) of
      None \<Rightarrow> Q (Fault Null_Deref) s
    | Some q \<Rightarrow> Q (Ok ()) (s\<lparr>log := log s @ [Ev_sqe (fill q)]\<rparr>))"
  by (simp add: queue_sqe_def wp_simps split: option.split)

lemma wp_get_sqe [wp_simps]:
  "wp (get_sqe u) Q s = (case u_get_sqe u (log s) of None \<Rightarrow> Q (Fault Null_Deref) s | Some q \<Rightarrow> Q (Ok q) s)"
  by (simp add: get_sqe_def wp_simps split: option.split)

lemma wp_deref_cqe [wp_simps]:
  "wp (deref_cqe c) Q s = (case c of None \<Rightarrow> Q (Fault Null_Deref) s | Some q \<Rightarrow> Q (Ok q) s)"
  by (simp add: deref_cqe_def wp_simps split: option.split)

lemma wp_see_cqe [wp_simps]:
  "wp (see_cqe c) Q s =
    Q (Ok ()) (case c of None \<Rightarrow> s | Some q \<Rightarrow> s\<lparr>log := log s @ [Ev_cqe q]\<rparr>)"
  by (simp add: see_cqe_def wp_simps split: option.split)

lemma wp_for_each_cqe [wp_simps]:
  "wp (for_each_cqe u body) Q s =
    wp (for_list (\<lambda>c. andthen (emit (Ev_cqe c)) (body c)) (u_cqes u (log s)))
      (after (\<lambda>_. Q (Ok (length (u_cqes u (log s))))) Q) s"
  by (simp add: for_each_cqe_def wp_simps)

end
