(* ===== verification/Ring_Trace.thy ===== *)
theory Ring_Trace
  imports Host
begin

text \<open>
  Requests and completions read off the log: which requests a program has queued, which
  completions it has looked at, which requests are still in flight, and what it means
  that every completion of a run was one the kernel may post. The interface between an
  event loop and its completion handler is the locale \<open>ring_server\<close>: a handler that keeps
  an invariant, whatever admissible completion it is given, keeps it through the loop.
\<close>

section \<open>Queued, seen and in-flight requests\<close>

fun sqe_of :: "event \<Rightarrow> sqe option" where
  "sqe_of (Ev_sqe q) = Some q"
| "sqe_of _ = None"

fun cqe_of :: "event \<Rightarrow> cqe option" where
  "cqe_of (Ev_cqe c) = Some c"
| "cqe_of _ = None"

definition queued :: "event list \<Rightarrow> sqe list" where
  "queued h = List.map_filter sqe_of h"

definition seen :: "event list \<Rightarrow> cqe list" where
  "seen h = List.map_filter cqe_of h"

definition inflight :: "event list \<Rightarrow> udata multiset" where
  "inflight h = mset (map sq_user_data (queued h)) - mset (map cq_user_data (seen h))"

text \<open>
  A single-shot request is answered by one completion that carries its user data: a
  completion is admissible when a request with its user data is in flight.
\<close>

definition answers :: "event list \<Rightarrow> cqe \<Rightarrow> bool" where
  "answers h c \<longleftrightarrow> cq_user_data c \<in># inflight h"

section \<open>Admissible runs\<close>

primrec ok_from :: "(event list \<Rightarrow> cqe \<Rightarrow> bool) \<Rightarrow> event list \<Rightarrow> event list \<Rightarrow> bool" where
  "ok_from K pre [] = True"
| "ok_from K pre (e # es) =
     ((case cqe_of e of None \<Rightarrow> True | Some c \<Rightarrow> K pre c) \<and> ok_from K (pre @ [e]) es)"

text \<open>\<open>cqes_ok K h\<close>: each completion in \<open>h\<close> satisfies \<open>K\<close> at the moment it was looked at.\<close>

definition cqes_ok :: "(event list \<Rightarrow> cqe \<Rightarrow> bool) \<Rightarrow> event list \<Rightarrow> bool" where
  "cqes_ok K h = ok_from K [] h"

lemma map_filter_append: "List.map_filter f (xs @ ys) = List.map_filter f xs @ List.map_filter f ys"
  by (simp add: map_filter_def)

lemma queued_simps [simp]:
  "queued [] = []"
  "queued (g @ h) = queued g @ queued h"
  "queued (e # h) = (case sqe_of e of None \<Rightarrow> queued h | Some q \<Rightarrow> q # queued h)"
  by (simp_all add: queued_def map_filter_append map_filter_simps split: option.split)

lemma seen_simps [simp]:
  "seen [] = []"
  "seen (g @ h) = seen g @ seen h"
  "seen (e # h) = (case cqe_of e of None \<Rightarrow> seen h | Some c \<Rightarrow> c # seen h)"
  by (simp_all add: seen_def map_filter_append map_filter_simps split: option.split)

lemma ok_from_append: "ok_from K pre (g @ h) \<longleftrightarrow> ok_from K pre g \<and> ok_from K (pre @ g) h"
  by (induction g arbitrary: pre) auto

lemma cqes_ok_Nil [simp]: "cqes_ok K []"
  by (simp add: cqes_ok_def)

lemma cqes_ok_append: "cqes_ok K (g @ h) \<longleftrightarrow> cqes_ok K g \<and> ok_from K g h"
  by (simp add: cqes_ok_def ok_from_append)

lemma cqes_ok_snoc [simp]:
  "cqes_ok K (h @ [e]) \<longleftrightarrow> cqes_ok K h \<and> (case cqe_of e of None \<Rightarrow> True | Some c \<Rightarrow> K h c)"
  by (simp add: cqes_ok_append)

lemma ok_from_mono: "(\<And>h c. K h c \<Longrightarrow> L h c) \<Longrightarrow> ok_from K pre h \<Longrightarrow> ok_from L pre h"
  by (induction h arbitrary: pre) (auto split: option.splits)

lemma cqes_ok_mono: "cqes_ok K h \<Longrightarrow> (\<And>h c. K h c \<Longrightarrow> L h c) \<Longrightarrow> cqes_ok L h"
  by (auto simp: cqes_ok_def intro: ok_from_mono)

lemma cqes_ok_True [simp]: "cqes_ok (\<lambda>_ _. True) h"
  by (induction h rule: rev_induct) (auto split: option.split)

lemma seen_subset_queued:
  "cqes_ok answers h \<Longrightarrow> mset (map cq_user_data (seen h)) \<subseteq># mset (map sq_user_data (queued h))"
proof (induction h rule: rev_induct)
  case Nil
  then show ?case by simp
next
  case (snoc e h)
  then have IH: "mset (map cq_user_data (seen h)) \<subseteq># mset (map sq_user_data (queued h))"
    by simp
  show ?case
  proof (cases "cqe_of e")
    case None
    with IH show ?thesis
      by (auto split: option.split intro: subset_mset.order_trans)
  next
    case (Some c)
    then have "sqe_of e = None"
      by (cases e) auto
    moreover have "cq_user_data c \<in># mset (map sq_user_data (queued h)) - mset (map cq_user_data (seen h))"
      using snoc.prems Some by (simp add: answers_def inflight_def)
    ultimately show ?thesis
      using IH Some subset_mset.le_diff_conv2 [OF IH, of "{#cq_user_data c#}"] by simp
  qed
qed

lemma inflight_Nil [simp]: "inflight [] = {#}"
  by (simp add: inflight_def)

lemma inflight_sqe:
  "cqes_ok answers h \<Longrightarrow> inflight (h @ [Ev_sqe q]) = add_mset (sq_user_data q) (inflight h)"
  using multiset_diff_union_assoc [OF seen_subset_queued, of h "{#sq_user_data q#}"]
  by (simp add: inflight_def)

lemma inflight_cqe: "inflight (h @ [Ev_cqe c]) = inflight h - {#cq_user_data c#}"
  by (simp add: inflight_def)

lemma inflight_other:
  "sqe_of e = None \<Longrightarrow> cqe_of e = None \<Longrightarrow> inflight (h @ [e]) = inflight h"
  by (simp add: inflight_def)

text \<open>The requests in flight, event by event.\<close>

definition inflight_step :: "udata multiset \<Rightarrow> event \<Rightarrow> udata multiset" where
  "inflight_step M e = (case e of
      Ev_sqe q \<Rightarrow> add_mset (sq_user_data q) M
    | Ev_cqe c \<Rightarrow> M - {#cq_user_data c#}
    | _ \<Rightarrow> M)"

lemma inflight_append:
  "cqes_ok answers (h @ es) \<Longrightarrow> inflight (h @ es) = foldl inflight_step (inflight h) es"
proof (induction es rule: rev_induct)
  case Nil
  then show ?case by simp
next
  case (snoc e es)
  then have ok: "cqes_ok answers (h @ es)" and IH: "inflight (h @ es) = foldl inflight_step (inflight h) es"
    by (simp_all flip: append_assoc)
  have "inflight ((h @ es) @ [e]) = inflight_step (inflight (h @ es)) e"
    using inflight_sqe [OF ok] inflight_cqe inflight_other [of e "h @ es"]
    by (cases e) (simp_all add: inflight_step_def del: append_assoc)
  then show ?case using IH by simp
qed

text \<open>A completion takes its request out of flight; what follows is computed event by event.\<close>

lemma completion_inflight:
  assumes "cqes_ok answers h" and "answers h c" and "seen es = []"
  obtains M where "inflight h = add_mset (cq_user_data c) M"
    and "inflight (h @ Ev_cqe c # es) = foldl inflight_step M es"
proof -
  obtain M where M: "inflight h = add_mset (cq_user_data c) M"
    using assms(2) unfolding answers_def by (metis multi_member_split)
  have "ok_from answers pre es" for pre
    using assms(3) by (induction es arbitrary: pre) (auto split: option.splits)
  then have "cqes_ok answers (h @ Ev_cqe c # es)"
    using assms(1,2) by (simp add: cqes_ok_append)
  then have "inflight (h @ Ev_cqe c # es) = foldl inflight_step M es"
    by (simp add: inflight_append M inflight_step_def)
  with M show thesis by (rule that)
qed

text \<open>A contract that only speaks of the log from position \<open>n\<close> on.\<close>

definition since :: "nat \<Rightarrow> (event list \<Rightarrow> cqe \<Rightarrow> bool) \<Rightarrow> event list \<Rightarrow> cqe \<Rightarrow> bool" where
  "since n K h c \<longleftrightarrow> (n \<le> length h \<longrightarrow> K (drop n h) c)"

lemma ok_from_since_after:
  "length base = n \<Longrightarrow> ok_from (since n K) (base @ pre) h \<longleftrightarrow> ok_from K pre h"
  by (induction h arbitrary: pre) (auto simp: since_def split: option.split)

lemma ok_from_since_before: "length pre + length h \<le> n \<Longrightarrow> ok_from (since n K) pre h"
  by (induction h arbitrary: pre) (auto simp: since_def split: option.split)

lemma cqes_ok_since: "cqes_ok (since (length base) K) (base @ h) \<longleftrightarrow> cqes_ok K h"
  using ok_from_since_after [of base "length base" K "[]" h] ok_from_since_before [of "[]" base]
  by (simp add: cqes_ok_def ok_from_append)

text \<open>
  The operation last queued with some user data. Where a program has one request at a time
  for each user data, this is the one a completion answers.
\<close>

definition last_op_step :: "(udata \<Rightarrow> sqe_op option) \<Rightarrow> event \<Rightarrow> udata \<Rightarrow> sqe_op option" where
  "last_op_step L e = (case e of Ev_sqe q \<Rightarrow> L(sq_user_data q \<mapsto> sq_op q) | _ \<Rightarrow> L)"

definition last_op :: "event list \<Rightarrow> udata \<Rightarrow> sqe_op option" where
  "last_op h = foldl last_op_step (\<lambda>_. None) h"

lemma last_op_append [simp]: "last_op (g @ h) = foldl last_op_step (last_op g) h"
  by (simp add: last_op_def)

lemma last_op_queued:
  "d \<in> sq_user_data ` set (queued h) \<Longrightarrow> \<exists>q \<in> set (queued h). sq_user_data q = d \<and> last_op h d = Some (sq_op q)"
proof (induction h rule: rev_induct)
  case (snoc e h)
  show ?case
  proof (cases "sqe_of e")
    case None
    then have "last_op_step (last_op h) e = last_op h"
      by (cases e) (simp_all add: last_op_step_def)
    with None snoc show ?thesis by simp
  next
    case (Some q)
    then have "e = Ev_sqe q"
      by (cases e) simp_all
    with snoc show ?thesis
      by (cases "sq_user_data q = d") (auto simp: last_op_step_def)
  qed
qed simp

text \<open>What completed receives brought, and what was queued to be sent.\<close>

definition recv_step :: "(udata \<Rightarrow> sqe_op option) \<times> (int \<times> ptr \<times> nat) list \<Rightarrow> event \<Rightarrow>
    (udata \<Rightarrow> sqe_op option) \<times> (int \<times> ptr \<times> nat) list" where
  "recv_step R e = (last_op_step (fst R) e, (case e of
      Ev_cqe c \<Rightarrow> (case fst R (cq_user_data c) of
          Some (Op_recv fd p n fl) \<Rightarrow> if 0 < cq_res c then snd R @ [(fd, p, nat (cq_res c))] else snd R
        | _ \<Rightarrow> snd R)
    | _ \<Rightarrow> snd R))"

definition ring_receives :: "event list \<Rightarrow> (int \<times> ptr \<times> nat) list" where
  "ring_receives h = snd (foldl recv_step (\<lambda>_. None, []) h)"

definition send_of :: "sqe \<Rightarrow> (int \<times> ptr \<times> nat) option" where
  "send_of q = (case sq_op q of Op_send fd p n _ \<Rightarrow> Some (fd, p, n) | _ \<Rightarrow> None)"

definition ring_sends :: "event list \<Rightarrow> (int \<times> ptr \<times> nat) list" where
  "ring_sends h = List.map_filter send_of (queued h)"

lemma fst_recv_steps: "fst (foldl recv_step R h) = foldl last_op_step (fst R) h"
  by (induction h arbitrary: R) (simp_all add: recv_step_def)

lemma ring_receives_append [simp]:
  "ring_receives (g @ h) = snd (foldl recv_step (last_op g, ring_receives g) h)"
proof -
  have "foldl recv_step (\<lambda>_. None, []) g = (last_op g, ring_receives g)"
    by (simp add: ring_receives_def last_op_def prod_eq_iff fst_recv_steps)
  then show ?thesis by (simp add: ring_receives_def)
qed

lemma ring_sends_append [simp]: "ring_sends (g @ h) = ring_sends g @ ring_sends h"
  by (simp add: ring_sends_def map_filter_append)

lemma ring_sends_Cons:
  "ring_sends (e # h) = (case sqe_of e of None \<Rightarrow> ring_sends h
     | Some q \<Rightarrow> (case send_of q of None \<Rightarrow> ring_sends h | Some m \<Rightarrow> m # ring_sends h))"
  by (auto simp: ring_sends_def map_filter_simps split: option.split)

lemma ring_Nil [simp]: "ring_sends [] = []" "ring_receives [] = []" "last_op [] d = None"
  by (simp_all add: ring_sends_def ring_receives_def last_op_def map_filter_simps)

text \<open>Events in between that are neither a request nor a completion and close nothing.\<close>

definition quiet :: "event list \<Rightarrow> bool" where
  "quiet es \<longleftrightarrow> list_all (\<lambda>e. sqe_of e = None \<and> cqe_of e = None \<and> (\<forall>fd. e \<noteq> Ev_close fd)) es"

lemma quiet_simps [simp]: "quiet []" "quiet (e # es) \<longleftrightarrow>
    sqe_of e = None \<and> cqe_of e = None \<and> (\<forall>fd. e \<noteq> Ev_close fd) \<and> quiet es" "quiet (g @ h) \<longleftrightarrow> quiet g \<and> quiet h"
  by (auto simp: quiet_def)

lemma register_quiet:
  "list_all (\<lambda>e. case e of Ev_register_files_update _ _ _ \<Rightarrow> True | _ \<Rightarrow> False) es \<Longrightarrow> quiet es"
proof (induction es)
  case (Cons e es)
  then show ?case by (cases e) simp_all
qed simp

section \<open>Room in the submission ring\<close>

text \<open>Requests queued since the last submit, and the promise of a ring with \<open>N\<close> entries.\<close>

definition pending_step :: "nat \<Rightarrow> event \<Rightarrow> nat" where
  "pending_step n e = (case e of
      Ev_sqe _ \<Rightarrow> Suc n | Ev_submit _ \<Rightarrow> 0 | Ev_submit_and_wait _ _ \<Rightarrow> 0 | _ \<Rightarrow> n)"

definition pending :: "event list \<Rightarrow> nat" where
  "pending h = foldl pending_step 0 h"

definition has_room :: "uring \<Rightarrow> nat \<Rightarrow> bool" where
  "has_room u N \<longleftrightarrow> (\<forall>h. pending h < N \<longrightarrow> u_get_sqe u h \<noteq> None)"

lemma pending_append [simp]: "pending (g @ h) = foldl pending_step (pending g) h"
  by (simp add: pending_def)

text \<open>A computation that uses at most \<open>c\<close> entries and has only the faults \<open>F\<close> where they are there.\<close>

definition within :: "fault set \<Rightarrow> nat \<Rightarrow> nat \<Rightarrow> ('x io_scheme, 'a) comp \<Rightarrow> bool" where
  "within F N c m \<longleftrightarrow> (\<forall>s. pending (log s) + c \<le> N \<longrightarrow>
     wp m (only F (\<lambda>_ t. pending (log t) \<le> pending (log s) + c)) s)"

lemma withinD:
  "within F N c m \<Longrightarrow> pending (log s) + c \<le> N \<Longrightarrow>
    wp m (only F (\<lambda>_ t. pending (log t) \<le> pending (log s) + c)) s"
  by (simp add: within_def)

lemma has_room_Some: "has_room u N \<Longrightarrow> pending h < N \<Longrightarrow> \<exists>q. u_get_sqe u h = Some q"
  by (simp add: has_room_def)

lemma has_room_None: "has_room u N \<Longrightarrow> u_get_sqe u h = None \<Longrightarrow> N \<le> pending h"
  by (auto simp: has_room_def not_less [symmetric])

lemma within_bnd:
  fixes m :: "('x io_scheme, 'a) comp"
  assumes "within F N c m" and "\<And>a. within F N d (f a)"
  shows "within F N (c + d) (bnd m f)"
  unfolding within_def
proof (intro allI impI)
  fix s :: "'x io_scheme"
  assume le: "pending (log s) + (c + d) \<le> N"
  show "wp (bnd m f) (only F (\<lambda>_ t. pending (log t) \<le> pending (log s) + (c + d))) s"
  proof (rule wp_bnd_only)
    show "wp m (only F (\<lambda>_ t. pending (log t) \<le> pending (log s) + c)) s"
      using le by (intro withinD [OF assms(1)]) simp
    fix a and t :: "'x io_scheme"
    assume t: "pending (log t) \<le> pending (log s) + c"
    with le have "wp (f a) (only F (\<lambda>_ t'. pending (log t') \<le> pending (log t) + d)) t"
      by (intro withinD [OF assms(2)]) simp
    then show "wp (f a) (only F (\<lambda>_ t. pending (log t) \<le> pending (log s) + (c + d))) t"
      using t by (elim wp_mono only_mono) simp
  qed
qed

lemma within_andthen: "within F N c m \<Longrightarrow> within F N d k \<Longrightarrow> within F N (c + d) (andthen m k)"
  by (simp add: andthen_def within_bnd)

lemma within_mono:
  fixes m :: "('x io_scheme, 'a) comp"
  assumes "within F N c m" and "c \<le> d"
  shows "within F N d m"
  unfolding within_def
proof (intro allI impI)
  fix s :: "'x io_scheme"
  assume "pending (log s) + d \<le> N"
  then have "wp m (only F (\<lambda>_ t. pending (log t) \<le> pending (log s) + c)) s"
    using assms(2) by (intro withinD [OF assms(1)]) linarith
  then show "wp m (only F (\<lambda>_ t. pending (log t) \<le> pending (log s) + d)) s"
    by (rule wp_mono) (use assms(2) in \<open>auto elim!: only_mono\<close>)
qed

lemma within_if: "within F N c m \<Longrightarrow> within F N c k \<Longrightarrow> within F N c (if b then m else k)"
  by simp

lemma within_basic: "within F N 0 (ret a)" "within F N 0 get_state"
  by (simp_all add: within_def wp_simps)

lemma within_for: "(\<And>x. within F N c (f x)) \<Longrightarrow> within F N (c * length xs) (for_list f xs)"
  by (induction xs) (auto intro: within_bnd, simp add: within_def wp_ret)

lemma within_for_each:
  assumes "\<And>c. within F N d (andthen (emit (Ev_cqe c)) (f c))"
    and "pending (log s) + d * length (u_cqes u (log s)) \<le> N"
  shows "wp (for_each_cqe u f) (only F (\<lambda>_ t. pending (log t) \<le> N)) s"
proof -
  have "within F N (d * length cs) (for_list (\<lambda>c. andthen (emit (Ev_cqe c)) (f c)) cs)" for cs
    by (rule within_for) (rule assms(1))
  from withinD [OF this assms(2)] show ?thesis
    using assms(2) by (simp add: wp_for_each_cqe) (erule wp_mono, erule only_mono, simp)
qed

section \<open>Computations that only extend the log\<close>

definition extends :: "('x io_scheme, 'a) comp \<Rightarrow> bool" where
  "extends m \<longleftrightarrow> (\<forall>s. \<exists>es. log (snd (m s)) = log s @ es)"

named_theorems extends_intros \<open>computations that only extend the log\<close>

lemma extendsD: "extends m \<Longrightarrow> m s = (r, t) \<Longrightarrow> \<exists>es. log t = log s @ es"
  by (metis extends_def snd_conv)

lemma extends_basic [extends_intros]:
  "extends (ret a)" "extends (exit_with c)" "extends (fail f)" "extends get_state"
  "extends (emit ev)" "extends (ask g k)" "extends (look g)"
  by (simp_all add: extends_def comp_simps)

lemma extends_bnd [extends_intros]:
  assumes "extends m" and "\<And>a. extends (f a)"
  shows "extends (bnd m f)"
  unfolding extends_def
proof
  fix s
  obtain r t where rt: "m s = (r, t)"
    by (cases "m s")
  then obtain es where es: "log t = log s @ es"
    using extendsD [OF assms(1)] by blast
  show "\<exists>es. log (snd (bnd m f s)) = log s @ es"
  proof (cases r)
    case (Ok a)
    obtain es' where "log (snd (f a t)) = log t @ es'"
      using assms(2) [of a] by (auto simp: extends_def)
    then show ?thesis
      using rt Ok es by (simp add: bnd_def)
  qed (use rt es in \<open>simp_all add: bnd_def\<close>)
qed

lemma extends_andthen [extends_intros]: "extends m \<Longrightarrow> extends k \<Longrightarrow> extends (andthen m k)"
  by (simp add: andthen_def extends_bnd)

lemma extends_if [extends_intros]: "extends m \<Longrightarrow> extends k \<Longrightarrow> extends (if b then m else k)"
  by simp

lemma extends_when [extends_intros]: "extends m \<Longrightarrow> extends (when_c b m)"
  by (simp add: when_c_def extends_basic)

lemma extends_option [extends_intros]:
  "extends m \<Longrightarrow> (\<And>x. extends (f x)) \<Longrightarrow> extends (case a of None \<Rightarrow> m | Some x \<Rightarrow> f x)"
  by (simp split: option.split)

lemma extends_prod [extends_intros]:
  "(\<And>x y. extends (f x y)) \<Longrightarrow> extends (case p of (x, y) \<Rightarrow> f x y)"
  by (simp split: prod.split)

lemma extends_udata [extends_intros]:
  "(\<And>w. extends (f w)) \<Longrightarrow> (\<And>p. extends (g p)) \<Longrightarrow> extends (case d of Raw w \<Rightarrow> f w | Ref p \<Rightarrow> g p)"
  by (simp split: udata.split)

lemma extends_ptr [extends_intros]:
  "extends m \<Longrightarrow> (\<And>x i. extends (f x i)) \<Longrightarrow> (\<And>x y. extends (g x y)) \<Longrightarrow>
    extends (case p of NULL \<Rightarrow> m | Obj x i \<Rightarrow> f x i | Auto x y \<Rightarrow> g x y)"
  by (simp split: ptr.split)

lemma extends_for [extends_intros]: "(\<And>x. extends (f x)) \<Longrightarrow> extends (for_list f xs)"
  by (induction xs) (auto intro: extends_intros)

lemma extends_rounds [extends_intros]: "extends m \<Longrightarrow> extends (rounds n m)"
  by (induction n) (auto intro: extends_intros)

lemma extends_queue_sqe [extends_intros]: "extends (queue_sqe u fill)"
  unfolding queue_sqe_def by (intro extends_intros)

lemma extends_get_sqe [extends_intros]: "extends (get_sqe u)"
  unfolding get_sqe_def by (intro extends_intros)

lemma extends_read_arr [extends_intros]: "extends (read_arr xs i)"
  by (simp add: read_arr_def extends_basic)

lemma extends_write_arr [extends_intros]: "(\<And>ys. extends (k ys)) \<Longrightarrow> extends (write_arr xs i v k)"
  by (simp add: write_arr_def extends_basic)

lemma extends_modify [extends_intros]: "(\<And>s. log (f s) = log s) \<Longrightarrow> extends (modify f)"
  by (simp add: extends_def modify_def)

lemma extends_for_each [extends_intros]: "(\<And>c. extends (f c)) \<Longrightarrow> extends (for_each_cqe u f)"
  unfolding for_each_cqe_def by (intro extends_intros)

lemma extends_cqe [extends_intros]:
  "extends (see_cqe c)" "extends (deref_cqe c)"
  "extends (io_uring_wait_cqe u)" "extends (io_uring_peek_cqe u)"
  unfolding see_cqe_def deref_cqe_def io_uring_wait_cqe_def io_uring_peek_cqe_def
  by (intro extends_intros)+

section \<open>Event loops over completions\<close>

definition guarded :: "(event list \<Rightarrow> cqe \<Rightarrow> bool) \<Rightarrow> ('x io_scheme \<Rightarrow> bool) \<Rightarrow> 'x io_scheme \<Rightarrow> bool" where
  "guarded K I s \<longleftrightarrow> (cqes_ok K (log s) \<longrightarrow> I s)"

text \<open>
  What a loop ends with, where the completions it looked at satisfy \<open>K\<close>: the invariant, an
  exit, or a fault of the set \<open>F\<close>.
\<close>

definition admits :: "(event list \<Rightarrow> cqe \<Rightarrow> bool) \<Rightarrow> fault set \<Rightarrow> ('x io_scheme \<Rightarrow> bool) \<Rightarrow>
    'a outcome \<Rightarrow> 'x io_scheme \<Rightarrow> bool" where
  "admits K F I r t \<longleftrightarrow> (cqes_ok K (log t) \<longrightarrow> only F (\<lambda>_. I) r t)"

lemma admits_simps [simp]:
  "admits K F I (Ok a) = guarded K I" "admits K F I (Exit c) t"
  "admits K F I (Fault f) t \<longleftrightarrow> (cqes_ok K (log t) \<longrightarrow> f \<in> F)"
  by (simp_all add: admits_def guarded_def fun_eq_iff)

lemma admits_UNIV: "admits K UNIV I = on_ok (\<lambda>_. guarded K I)"
  by (intro ext) (simp add: admits_def on_ok_def guarded_def only_def split: outcome.split)

lemma wp_bnd_admits:
  assumes "wp m (admits K F I) s" and "\<And>a t. guarded K I t \<Longrightarrow> wp (f a) (admits K F J) t"
  shows "wp (bnd m f) (admits K F J) s"
  unfolding wp_bnd using assms(1)
  by (rule wp_mono) (use assms(2) in \<open>auto simp: after_def split: outcome.splits\<close>)

lemma wp_rounds_admits:
  assumes "guarded K I s" and "\<And>s. guarded K I s \<Longrightarrow> wp m (admits K F I) s"
  shows "wp (rounds n m) (admits K F I) s"
proof (rule wp_rounds [where I = "guarded K I"])
  show "wp m (after (\<lambda>_. guarded K I) (admits K F I)) t" if "guarded K I t" for t
    using assms(2) [OF that] by (rule wp_mono) (auto simp: after_def split: outcome.splits)
qed (use assms(1) in simp_all)

text \<open>
  The interface between an event loop and its handler: \<open>K\<close> is what the kernel promises of
  a completion, \<open>I\<close> the invariant, \<open>F\<close> the faults not excluded. The invariant is asked for
  where the handler returns to the loop; a handler may also leave the process.
\<close>

locale ring_server =
  fixes handle :: "cqe \<Rightarrow> ('x io_scheme, unit) comp"
    and K :: "event list \<Rightarrow> cqe \<Rightarrow> bool"
    and F :: "fault set"
    and I :: "'x io_scheme \<Rightarrow> bool"
  assumes handle_step:
    "I s \<Longrightarrow> cqes_ok K (log s) \<Longrightarrow> K (log s) c \<Longrightarrow>
      wp (handle c) (only F (\<lambda>_. I)) (s\<lparr>log := log s @ [Ev_cqe c]\<rparr>)"
    and handle_extends: "extends (handle c)"
begin

lemma handle_admits:
  assumes "guarded K I s"
  shows "wp (andthen (emit (Ev_cqe c)) (handle c)) (admits K F I) s"
proof -
  let ?s = "s\<lparr>log := log s @ [Ev_cqe c]\<rparr>"
  have "wp (handle c) (admits K F I) ?s"
  proof (rule wpI)
    fix r t
    assume run: "handle c ?s = (r, t)"
    obtain es where es: "log t = log ?s @ es"
      using extendsD [OF handle_extends run] by blast
    show "admits K F I r t"
      unfolding admits_def
    proof
      assume "cqes_ok K (log t)"
      then have "cqes_ok K (log ?s)"
        using es by (auto simp: cqes_ok_append)
      then show "only F (\<lambda>_. I) r t"
        using handle_step [of s c] assms run by (auto simp: guarded_def wp_iff)
    qed
  qed
  then show ?thesis by (simp add: wp_simps)
qed

lemma for_list_admits:
  assumes "guarded K I s"
  shows "wp (for_list (\<lambda>c. andthen (emit (Ev_cqe c)) (handle c)) cs) (admits K F I) s"
  using assms
proof (induction cs arbitrary: s)
  case (Cons c cs)
  show ?case
    unfolding for_list.simps by (rule wp_bnd_admits [OF handle_admits [OF Cons.prems] Cons.IH])
qed (simp add: wp_ret)

lemma for_each_admits:
  assumes "guarded K I s"
  shows "wp (for_each_cqe u handle) (admits K F I) s"
  using for_list_admits [OF assms, of "u_cqes u (log s)"]
  by (simp add: wp_for_each_cqe) (erule wp_mono, auto simp: after_def split: outcome.splits)

end

end
