(* ===== verification/Conn_Info.thy ===== *)
theory Conn_Info
  imports Ring_Trace
begin

text \<open>
  \<^verbatim>\<open>struct conn_info\<close>, the eight bytes the servers copy into the \<^verbatim>\<open>user_data\<close> of a request
  and back out of its completion (\<^verbatim>\<open>demo/io_op.h\<close>, and with the same layout
  \<^verbatim>\<open>io_uring_echo_server.c\<close>), and the buffer number in the flags of a completion.
\<close>

section \<open>The structure and its object representation\<close>

record conn_info =
  ci_fd :: u32
  ci_type :: u16
  ci_bid :: u16

text \<open>
  \<^verbatim>\<open>memcpy (&sqe->user_data, &conn_i, 8)\<close> and its converse on a little-endian machine: the
  fields are at offsets 0, 4 and 6.
\<close>

definition pack :: "conn_info \<Rightarrow> u64" where
  "pack ci = ucast (ci_fd ci) OR push_bit 32 (ucast (ci_type ci)) OR push_bit 48 (ucast (ci_bid ci))"

definition unpack :: "u64 \<Rightarrow> conn_info" where
  "unpack w = \<lparr>ci_fd = ucast w, ci_type = ucast (drop_bit 32 w), ci_bid = ucast (drop_bit 48 w)\<rparr>"

text \<open>Reading the structure out of \<^verbatim>\<open>cqe->user_data\<close>; the servers only store bytes there.\<close>

definition info_of :: "udata \<Rightarrow> conn_info" where
  "info_of d = (case d of Raw w \<Rightarrow> unpack w | Ref _ \<Rightarrow> unpack 0)"

text \<open>The initialiser \<^verbatim>\<open>{ .fd = fd, .type = t, .bid = b }\<close>: an \<^verbatim>\<open>int\<close> stored in 32 bits.\<close>

definition mk_info :: "int \<Rightarrow> u16 \<Rightarrow> u16 \<Rightarrow> conn_info" where
  "mk_info fd t b = \<lparr>ci_fd = to_u32 fd, ci_type = t, ci_bid = b\<rparr>"

text \<open>\<^verbatim>\<open>conn_i.fd\<close> where an \<^verbatim>\<open>int\<close> is expected, and \<^verbatim>\<open>int bid = cqe->flags >> 16\<close>.\<close>

definition fd_of :: "conn_info \<Rightarrow> int" where
  "fd_of ci = sint (ci_fd ci)"

definition bid_of_flags :: "u32 \<Rightarrow> int" where
  "bid_of_flags f = to_i32 (uint (drop_bit 16 f))"

section \<open>Round trips\<close>

lemma bit_ucast_iff: "bit (ucast (w :: 'a::len word) :: 'b::len word) n \<longleftrightarrow> n < LENGTH('b) \<and> bit w n"
  by (auto simp: bit_unsigned_iff dest: bit_imp_le_length)

lemmas bits = bit_or_iff bit_push_bit_iff bit_drop_bit_eq bit_ucast_iff

lemma unpack_pack [simp]: "unpack (pack ci) = ci"
proof -
  have "ucast (pack ci) = ci_fd ci"
    by (rule bit_word_eqI) (auto simp: pack_def bits dest: bit_imp_le_length)
  moreover have "ucast (drop_bit 32 (pack ci)) = ci_type ci"
    by (rule bit_word_eqI) (auto simp: pack_def bits dest: bit_imp_le_length)
  moreover have "ucast (drop_bit 48 (pack ci)) = ci_bid ci"
    by (rule bit_word_eqI) (auto simp: pack_def bits dest: bit_imp_le_length)
  ultimately show ?thesis by (simp add: unpack_def)
qed

lemma pack_unpack [simp]: "pack (unpack w) = w"
proof (rule bit_word_eqI)
  fix n
  assume "n < LENGTH(64)"
  then show "bit (pack (unpack w)) n = bit w n"
    by (cases "n < 48") (auto simp: pack_def unpack_def bits dest: bit_imp_le_length)
qed

lemma pack_inject [simp]: "pack a = pack b \<longleftrightarrow> a = b"
  by (metis unpack_pack)

lemma info_of_pack [simp]: "info_of (Raw (pack ci)) = ci"
  by (simp add: info_of_def)

lemma mk_info_sel [simp]:
  "ci_type (mk_info fd t b) = t" "ci_bid (mk_info fd t b) = b"
  by (simp_all add: mk_info_def)

lemma fd_of_mk_info [simp]: "is_i32 fd \<Longrightarrow> fd_of (mk_info fd t b) = fd"
  using to_i32_id [of fd] by (simp add: fd_of_def mk_info_def to_u32_def to_i32_def)

lemma mk_info_eq_iff:
  "is_i32 fd \<Longrightarrow> is_i32 fd' \<Longrightarrow> mk_info fd t b = mk_info fd' t' b' \<longleftrightarrow> fd = fd' \<and> t = t' \<and> b = b'"
  by (metis fd_of_mk_info mk_info_sel)

lemma fd_of_range: "is_i32 (fd_of ci)"
  using sint_greater_eq [of "ci_fd ci"] sint_less [of "ci_fd ci"]
  by (simp add: fd_of_def is_i32_def)

lemma mk_info_fd_of [simp]: "mk_info (fd_of ci) (ci_type ci) (ci_bid ci) = ci"
  by (simp add: mk_info_def fd_of_def to_u32_def)

lemma bid_of_flags_range: "0 \<le> bid_of_flags f \<and> bid_of_flags f < 2 ^ 16"
proof -
  have "uint (drop_bit 16 f) = uint f div 2 ^ 16"
    by (simp add: drop_bit_eq_div uint_div)
  moreover have "uint f < 2 ^ 32"
    using uint_lt2p [of f] by simp
  ultimately have r: "0 \<le> uint (drop_bit 16 f)" "uint (drop_bit 16 f) < 2 ^ 16"
    by (simp_all add: pos_imp_zdiv_nonneg_iff)
  then have "is_i32 (uint (drop_bit 16 f))"
    by (intro is_i32I) auto
  with r show ?thesis by (simp add: bid_of_flags_def)
qed

text \<open>The buffer number survives the trip through the 16-bit field of the request.\<close>

lemma to_u16_bid: "uint (to_u16 (bid_of_flags f)) = bid_of_flags f"
  using bid_of_flags_range [of f] by (simp add: to_u16_def unsigned_of_int take_bit_int_eq_self)

end
