(* ===== verification/Example_Env.thy ===== *)
theory Example_Env
  imports Ring_Trace
begin

text \<open>
  Concrete environments, for the witnesses of properties that have a hypothesis about the
  environment: the system calls succeed, the ring has room, and the completions are
  handed out round by round from a script.
\<close>

definition ex_slot :: sqe where
  "ex_slot = \<lparr>sq_op = Op_poll_add 0 0, sq_flags = 0, sq_len = 0, sq_buf_group = 0, sq_user_data = Raw 0\<rparr>"

fun ex_is_wait :: "event \<Rightarrow> bool" where
  "ex_is_wait (Ev_submit_and_wait _ _) = True"
| "ex_is_wait _ = False"

definition ex_waits :: "event list \<Rightarrow> nat" where
  "ex_waits h = length (filter ex_is_wait h)"

definition ex_sock :: sock where
  "ex_sock = \<lparr>k_socket = (\<lambda>_. 3), k_bind = (\<lambda>_. 0), k_listen = (\<lambda>_. 0), k_accept = (\<lambda>_. 5),
     k_recv = (\<lambda>_ _ _. ([], 0)), k_send = (\<lambda>_ _ d. int (length d)),
     k_epoll_create = (\<lambda>_. 4), k_epoll_ctl = (\<lambda>_ _ _. 0), k_epoll_wait = (\<lambda>_. (0, []))\<rparr>"

definition ex_uring :: "cqe list list \<Rightarrow> uring" where
  "ex_uring script = \<lparr>u_queue_init = (\<lambda>_. 0), u_queue_init_params = (\<lambda>_. (0, 32)),
     u_probe = (\<lambda>_. Some True), u_get_sqe = (\<lambda>_. Some ex_slot),
     u_prep = (\<lambda>op q. q\<lparr>sq_op := op, sq_flags := 0\<rparr>),
     u_set_flags = (\<lambda>q f. q\<lparr>sq_flags := ucast f\<rparr>), u_set_data = (\<lambda>q p. q\<lparr>sq_user_data := Ref p\<rparr>),
     u_submit = (\<lambda>_. 1), u_submit_and_wait = (\<lambda>_ _. 1),
     u_wait_cqe = (\<lambda>_. (0, Some \<lparr>cq_user_data = Raw 0, cq_res = 0, cq_flags = 0\<rparr>)),
     u_peek_cqe = (\<lambda>_. (-11, None)),
     u_cqes = (\<lambda>h. if ex_waits h = 0 \<or> length script < ex_waits h then [] else script ! (ex_waits h - 1)),
     u_reread = (\<lambda>_ c. c), u_reg_files = (\<lambda>_. 0), u_reg_file_slot = (\<lambda>_ _. 1),
     u_reg_ring_fd = (\<lambda>_. 1), u_reg_buf_ring = (\<lambda>_. 0)\<rparr>"

definition ex_io :: io where
  "ex_io = \<lparr>log = []\<rparr>"

lemma ex_io_log [simp]: "log ex_io = []"
  by (simp add: ex_io_def)

lemma ex_uring_helpers [simp]: "sqe_helpers (ex_uring script)"
  by (simp add: sqe_helpers_def ex_uring_def)

lemma ex_sock_sel [simp]:
  "k_socket ex_sock h = 3" "k_bind ex_sock h = 0" "k_listen ex_sock h = 0" "k_accept ex_sock h = 5"
  "k_send ex_sock h fd d = int (length d)" "k_epoll_create ex_sock h = 4"
  "k_epoll_ctl ex_sock h op fd = 0"
  by (simp_all add: ex_sock_def)

lemma ex_uring_sel [simp]:
  "u_queue_init (ex_uring sc) h = 0" "u_queue_init_params (ex_uring sc) h = (0, 32)"
  "u_probe (ex_uring sc) h = Some True" "u_get_sqe (ex_uring sc) h = Some ex_slot"
  "u_prep (ex_uring sc) op q = q\<lparr>sq_op := op, sq_flags := 0\<rparr>"
  "u_set_flags (ex_uring sc) q f = q\<lparr>sq_flags := ucast f\<rparr>"
  "u_set_data (ex_uring sc) q p = q\<lparr>sq_user_data := Ref p\<rparr>"
  "u_submit (ex_uring sc) h = 1" "u_submit_and_wait (ex_uring sc) h i = 1"
  "u_wait_cqe (ex_uring sc) h = (0, Some \<lparr>cq_user_data = Raw 0, cq_res = 0, cq_flags = 0\<rparr>)"
  "u_cqes (ex_uring sc) h =
     (if ex_waits h = 0 \<or> length sc < ex_waits h then [] else sc ! (ex_waits h - 1))"
  "u_reg_files (ex_uring sc) h = 0" "u_reg_file_slot (ex_uring sc) h i = 1"
  "u_reg_ring_fd (ex_uring sc) h = 1" "u_reg_buf_ring (ex_uring sc) h = 0"
  by (simp_all add: ex_uring_def)

lemma ex_uring_room [simp]: "has_room (ex_uring sc) N"
  by (simp add: has_room_def)

lemma ex_uring_batch: "list_all (\<lambda>cs. m * length cs \<le> N) sc \<Longrightarrow> m * length (u_cqes (ex_uring sc) h) \<le> N"
  by (auto simp: list_all_length)

definition ex_alloc :: alloc where
  "ex_alloc = \<lparr>a_malloc = (\<lambda>_ _. True), a_rlimit = (\<lambda>_. (0, 1024))\<rparr>"

lemma ex_alloc_sel [simp]: "a_malloc ex_alloc h n" "a_rlimit ex_alloc h = (0, 1024)"
  by (simp_all add: ex_alloc_def)

definition ex_alloc_max :: alloc where
  "ex_alloc_max = \<lparr>a_malloc = (\<lambda>_ n. n < 2 ^ 63), a_rlimit = (\<lambda>_. (0, 1024))\<rparr>"

lemma ex_alloc_max_sel [simp]: "a_malloc ex_alloc_max h n \<longleftrightarrow> n < 2 ^ 63" "a_rlimit ex_alloc_max h = (0, 1024)"
  by (simp_all add: ex_alloc_max_def)

end
