(* ===== verification/IO_Op.thy ===== *)
theory IO_Op
  imports Conn_Info Example_Env
begin

text \<open>
  \<^verbatim>\<open>demo/io_op.c\<close> and \<^verbatim>\<open>demo/io_op.h\<close>: the listening socket, and the functions that put one
  request each into the submission ring. The pool \<^verbatim>\<open>bufs\<close> is the object \<open>''bufs''\<close>, one
  element for each buffer.
\<close>

section \<open>Constants\<close>

definition IORING_MAX_ENTRIES :: nat where "IORING_MAX_ENTRIES = 4096"
definition MAX_EVENTS :: nat where "MAX_EVENTS = 10"
definition MAX_MESSAGE_LEN :: nat where "MAX_MESSAGE_LEN = 1024"
definition MAX_CONNECTIONS :: nat where "MAX_CONNECTIONS = 4096"
definition BUFFERS_COUNT :: nat where "BUFFERS_COUNT = MAX_CONNECTIONS"

definition ACCEPT :: u16 where "ACCEPT = 1"
definition READ :: u16 where "READ = 2"
definition WRITE :: u16 where "WRITE = 3"
definition PROV_BUF :: u16 where "PROV_BUF = 4"

lemmas op_types = ACCEPT_def READ_def WRITE_def PROV_BUF_def

section \<open>The listening socket\<close>

definition create_server_socket :: "sock \<Rightarrow> int \<Rightarrow> ('x io_scheme, int) comp" where
  "create_server_socket k port =
     bnd (socket_c k AF_INET SOCK_STREAM 0) (\<lambda>sockfd.
       if sockfd = -1 then ret (-1)
       else
         bnd (bind_c k sockfd \<lparr>sin_family = AF_INET, sin_port = htons (to_u16 port), sin_addr = INADDR_ANY\<rparr>)
           (\<lambda>r. if r = -1 then andthen (close_c sockfd) (ret (-1))
             else
               bnd (listen_c k sockfd SOMAXCONN)
                 (\<lambda>r. if r = -1 then andthen (close_c sockfd) (ret (-1))
                   else ret sockfd)))"

section \<open>Requests\<close>

definition add_accept :: "uring \<Rightarrow> int \<Rightarrow> ptr \<Rightarrow> ptr \<Rightarrow> u32 \<Rightarrow> ('x io_scheme, unit) comp" where
  "add_accept u fd client_addr client_len flags =
     queue_sqe u (\<lambda>q. (u_set_flags u (u_prep u (Op_accept fd client_addr client_len 0) q) flags)
       \<lparr>sq_user_data := Raw (pack (mk_info fd ACCEPT 0))\<rparr>)"

text \<open>
  The functions for \<^verbatim>\<open>recvmsg\<close> and \<^verbatim>\<open>sendmsg\<close> build the message header in automatic
  variables and queue its address; the variables end with the function.
\<close>

definition add_recvmsg :: "uring \<Rightarrow> int \<Rightarrow> ptr \<Rightarrow> nat \<Rightarrow> u32 \<Rightarrow> ('x io_scheme, unit) comp" where
  "add_recvmsg u fd buff buff_size flags =
     andthen (emit (Ev_auto (Auto ''add_recvmsg'' ''msg'') \<lparr>iov_base = buff, iov_len = buff_size\<rparr>))
    (andthen (queue_sqe u (\<lambda>q.
         (u_set_flags u (u_prep u (Op_recvmsg fd (Auto ''add_recvmsg'' ''msg'') 0) q) flags)
         \<lparr>sq_user_data := Raw (pack (mk_info fd READ 0))\<rparr>))
      (emit (Ev_auto_end (Auto ''add_recvmsg'' ''msg''))))"

definition add_recvmsg_from_group_buff ::
    "uring \<Rightarrow> int \<Rightarrow> u32 \<Rightarrow> nat \<Rightarrow> u32 \<Rightarrow> ('x io_scheme, unit) comp" where
  "add_recvmsg_from_group_buff u fd gid buff_size flags =
     andthen (emit (Ev_auto (Auto ''add_recvmsg_from_group_buff'' ''msg'')
         \<lparr>iov_base = NULL, iov_len = buff_size\<rparr>))
    (andthen (queue_sqe u (\<lambda>q.
         (u_set_flags u (u_prep u (Op_recvmsg fd (Auto ''add_recvmsg_from_group_buff'' ''msg'') 0) q) flags)
         \<lparr>sq_buf_group := ucast gid, sq_user_data := Raw (pack (mk_info fd READ 0))\<rparr>))
      (emit (Ev_auto_end (Auto ''add_recvmsg_from_group_buff'' ''msg''))))"

definition add_sendmsg :: "uring \<Rightarrow> int \<Rightarrow> ptr \<Rightarrow> nat \<Rightarrow> u32 \<Rightarrow> ('x io_scheme, unit) comp" where
  "add_sendmsg u fd buff msg_size flags =
     andthen (emit (Ev_auto (Auto ''add_sendmsg'' ''msg'') \<lparr>iov_base = buff, iov_len = msg_size\<rparr>))
    (andthen (queue_sqe u (\<lambda>q.
         (u_set_flags u (u_prep u (Op_sendmsg fd (Auto ''add_sendmsg'' ''msg'') 0) q) flags)
         \<lparr>sq_user_data := Raw (pack (mk_info fd WRITE 0))\<rparr>))
      (emit (Ev_auto_end (Auto ''add_sendmsg'' ''msg''))))"

definition add_sendmsg_from_group_buff ::
    "uring \<Rightarrow> int \<Rightarrow> u16 \<Rightarrow> nat \<Rightarrow> u32 \<Rightarrow> ('x io_scheme, unit) comp" where
  "add_sendmsg_from_group_buff u fd bid msg_size flags =
     andthen (emit (Ev_auto (Auto ''add_sendmsg_from_group_buff'' ''msg'')
         \<lparr>iov_base = Obj ''bufs'' (uint bid), iov_len = msg_size\<rparr>))
    (andthen (queue_sqe u (\<lambda>q.
         (u_set_flags u (u_prep u (Op_sendmsg fd (Auto ''add_sendmsg_from_group_buff'' ''msg'') 0) q) flags)
         \<lparr>sq_user_data := Raw (pack (mk_info fd WRITE bid))\<rparr>))
      (emit (Ev_auto_end (Auto ''add_sendmsg_from_group_buff'' ''msg''))))"

text \<open>Registering the whole pool, and waiting for the kernel's answer.\<close>

definition provide_buffers :: "uring \<Rightarrow> int \<Rightarrow> ('x io_scheme, unit) comp" where
  "provide_buffers u group_id =
     andthen (queue_sqe u (u_prep u
         (Op_provide_buffers (Obj ''bufs'' 0) MAX_MESSAGE_LEN BUFFERS_COUNT group_id 0)))
    (andthen (io_uring_submit u)
    (bnd (io_uring_wait_cqe u) (\<lambda>(_, p).
      bnd (deref_cqe p) (\<lambda>cqe.
        if cq_res cqe < 0 then exit_with 1 else io_uring_cqe_seen))))"

definition add_provide_buf :: "uring \<Rightarrow> u16 \<Rightarrow> u32 \<Rightarrow> ('x io_scheme, unit) comp" where
  "add_provide_buf u bid gid =
     queue_sqe u (\<lambda>q. (u_prep u
         (Op_provide_buffers (Obj ''bufs'' (uint bid)) MAX_MESSAGE_LEN 1 (uint gid) (uint bid)) q)
       \<lparr>sq_user_data := Raw (pack (mk_info 0 PROV_BUF 0))\<rparr>)"

definition add_recv_from_group_buff ::
    "uring \<Rightarrow> int \<Rightarrow> u32 \<Rightarrow> nat \<Rightarrow> u32 \<Rightarrow> ('x io_scheme, unit) comp" where
  "add_recv_from_group_buff u fd gid message_size flags =
     queue_sqe u (\<lambda>q. (u_set_flags u (u_prep u (Op_recv fd NULL message_size 0) q) flags)
       \<lparr>sq_buf_group := ucast gid, sq_user_data := Raw (pack (mk_info fd READ 0))\<rparr>)"

definition add_send_from_group_buff ::
    "uring \<Rightarrow> int \<Rightarrow> u16 \<Rightarrow> nat \<Rightarrow> u32 \<Rightarrow> ('x io_scheme, unit) comp" where
  "add_send_from_group_buff u fd bid message_size flags =
     queue_sqe u (\<lambda>q. (u_set_flags u (u_prep u (Op_send fd (Obj ''bufs'' (uint bid)) message_size 0) q) flags)
       \<lparr>sq_user_data := Raw (pack (mk_info fd WRITE bid))\<rparr>)"

lemmas add_defs =
  add_accept_def add_recvmsg_def add_recvmsg_from_group_buff_def add_sendmsg_def
  add_sendmsg_from_group_buff_def add_provide_buf_def add_recv_from_group_buff_def
  add_send_from_group_buff_def

section \<open>The interface of a request function\<close>

text \<open>
  What the event loops rely on: a request function puts exactly one request into the
  ring, with the operation and the connection information it was asked for, looks at no
  completion, and never leaves the process; it faults exactly when the ring is full.
\<close>

locale request =
  fixes add :: "uring \<Rightarrow> ('x io_scheme, unit) comp"
    and op :: sqe_op and fl :: u8 and info :: conn_info
  assumes adds: "sqe_helpers u \<Longrightarrow> wp (add u) (\<lambda>r t.
      case r of
        Ok _ \<Rightarrow> \<exists>q. queued (log t) = queued (log s) @ [q] \<and> sq_op q = op \<and> sq_flags q = fl \<and>
          sq_user_data q = Raw (pack info) \<and> seen (log t) = seen (log s)
      | Exit _ \<Rightarrow> False
      | Fault f \<Rightarrow> f = Null_Deref \<and> queued (log t) = queued (log s) \<and> seen (log t) = seen (log s)) s"
    and add_extends: "extends (add u)"
begin

lemma never_exits: "sqe_helpers u \<Longrightarrow> add u s \<noteq> (Exit c, t)"
  using adds [of u s] by (auto simp: wp_iff)

lemma one_request:
  assumes "sqe_helpers u" and "add u s = (Ok x, t)"
  shows "\<exists>q. queued (log t) = queued (log s) @ [q] \<and> sq_op q = op \<and> sq_flags q = fl \<and>
    info_of (sq_user_data q) = info"
  using adds [of u s] assms by (auto simp: wp_iff)

lemma inflight_grows:
  assumes "sqe_helpers u" and "add u s = (Ok x, t)" and "cqes_ok answers (log s)"
  shows "inflight (log t) = add_mset (Raw (pack info)) (inflight (log s))"
proof -
  obtain q where q: "queued (log t) = queued (log s) @ [q]" "sq_user_data q = Raw (pack info)"
    and s: "seen (log t) = seen (log s)"
    using adds [of u s] assms(1,2) by (auto simp: wp_iff)
  from multiset_diff_union_assoc [OF seen_subset_queued [OF assms(3)], of "{#sq_user_data q#}"]
  show ?thesis using q s by (simp add: inflight_def)
qed

end

text \<open>One proof covers the functions: unfold, ask for the slot, read the fields off.\<close>

lemmas add_law = wp_simps sqe_helpersD

interpretation accept: request "\<lambda>u. add_accept u fd a l flags" "Op_accept fd a l 0" "ucast flags"
    "mk_info fd ACCEPT 0" for fd a l flags
  by unfold_locales (auto simp: add_defs add_law split: option.split intro!: extends_intros)

interpretation recvmsg: request "\<lambda>u. add_recvmsg u fd b n flags"
    "Op_recvmsg fd (Auto ''add_recvmsg'' ''msg'') 0" "ucast flags" "mk_info fd READ 0" for fd b n flags
  by unfold_locales (auto simp: add_defs add_law split: option.split intro!: extends_intros)

interpretation recvmsg_group: request "\<lambda>u. add_recvmsg_from_group_buff u fd gid n flags"
    "Op_recvmsg fd (Auto ''add_recvmsg_from_group_buff'' ''msg'') 0" "ucast flags"
    "mk_info fd READ 0" for fd gid n flags
  by unfold_locales (auto simp: add_defs add_law split: option.split intro!: extends_intros)

interpretation sendmsg: request "\<lambda>u. add_sendmsg u fd b n flags"
    "Op_sendmsg fd (Auto ''add_sendmsg'' ''msg'') 0" "ucast flags" "mk_info fd WRITE 0" for fd b n flags
  by unfold_locales (auto simp: add_defs add_law split: option.split intro!: extends_intros)

interpretation sendmsg_group: request "\<lambda>u. add_sendmsg_from_group_buff u fd bid n flags"
    "Op_sendmsg fd (Auto ''add_sendmsg_from_group_buff'' ''msg'') 0" "ucast flags"
    "mk_info fd WRITE bid" for fd bid n flags
  by unfold_locales (auto simp: add_defs add_law split: option.split intro!: extends_intros)

interpretation provide: request "\<lambda>u. add_provide_buf u bid gid"
    "Op_provide_buffers (Obj ''bufs'' (uint bid)) MAX_MESSAGE_LEN 1 (uint gid) (uint bid)" 0
    "mk_info 0 PROV_BUF 0" for bid gid
  by unfold_locales (auto simp: add_defs add_law split: option.split intro!: extends_intros)

interpretation recv_group: request "\<lambda>u. add_recv_from_group_buff u fd gid n flags"
    "Op_recv fd NULL n 0" "ucast flags" "mk_info fd READ 0" for fd gid n flags
  by unfold_locales (auto simp: add_defs add_law split: option.split intro!: extends_intros)

interpretation send_group: request "\<lambda>u. add_send_from_group_buff u fd bid n flags"
    "Op_send fd (Obj ''bufs'' (uint bid)) n 0" "ucast flags" "mk_info fd WRITE bid" for fd bid n flags
  by unfold_locales (auto simp: add_defs add_law split: option.split intro!: extends_intros)

section \<open>Sockets that are open\<close>

definition open_step :: "int set \<Rightarrow> event \<Rightarrow> int set" where
  "open_step S e = (case e of
      Ev_socket _ _ _ fd \<Rightarrow> if fd = -1 then S else insert fd S
    | Ev_close fd \<Rightarrow> S - {fd}
    | _ \<Rightarrow> S)"

definition open_socks :: "event list \<Rightarrow> int set" where
  "open_socks h = foldl open_step {} h"

text \<open>The socket that listens on a port, if the log says there is one.\<close>

definition bound_to :: "event list \<Rightarrow> int \<Rightarrow> u16 \<Rightarrow> bool" where
  "bound_to h fd port \<longleftrightarrow> list_ex (\<lambda>e. case e of
      Ev_bind f a r \<Rightarrow> f = fd \<and> r \<noteq> -1 \<and> sin_family a = AF_INET \<and> ntohs (sin_port a) = port | _ \<Rightarrow> False) h"

definition listens :: "event list \<Rightarrow> int \<Rightarrow> bool" where
  "listens h fd \<longleftrightarrow> list_ex (\<lambda>e. case e of Ev_listen f _ r \<Rightarrow> f = fd \<and> r \<noteq> -1 | _ \<Rightarrow> False) h"

section \<open>Message headers in automatic storage\<close>

definition live_step :: "ptr set \<Rightarrow> event \<Rightarrow> ptr set" where
  "live_step S e = (case e of Ev_auto p _ \<Rightarrow> insert p S | Ev_auto_end p \<Rightarrow> S - {p} | _ \<Rightarrow> S)"

definition live :: "event list \<Rightarrow> ptr set" where
  "live h = foldl live_step {} h"

fun header_of :: "sqe_op \<Rightarrow> ptr option" where
  "header_of (Op_recvmsg _ p _) = Some p"
| "header_of (Op_sendmsg _ p _) = Some p"
| "header_of _ = None"

text \<open>The kernel reads a message header when the request is submitted: later than it is queued.\<close>

definition dangles :: "event list \<Rightarrow> sqe \<Rightarrow> bool" where
  "dangles h q \<longleftrightarrow> (case header_of (sq_op q) of
      Some (Auto f x) \<Rightarrow> Auto f x \<notin> live h
    | _ \<Rightarrow> False)"

lemma dangles_header: "header_of (sq_op q) = Some (Auto f x) \<Longrightarrow> dangles h q \<longleftrightarrow> Auto f x \<notin> live h"
  by (simp add: dangles_def)

lemma live_append [simp]: "live (g @ h) = foldl live_step (live g) h"
  by (simp add: live_def)

lemma open_socks_append [simp]: "open_socks (g @ h) = foldl open_step (open_socks g) h"
  by (simp add: open_socks_def)

section \<open>Properties\<close>

text \<open>
  C20: \<^verbatim>\<open>create_server_socket\<close> returns on every path. Where it succeeds, the result is an open
  socket, bound to the port asked for (in network byte order) and listening, and it is the
  only one it opened; where it fails, it returns -1 and leaves no socket open.
\<close>

theorem create_server_socket_spec:
  assumes "create_server_socket k port s = (r, t)" and "log s = []"
  shows "\<exists>fd. r = Ok fd \<and>
    (if fd = -1 then open_socks (log t) = {}
     else open_socks (log t) = {fd} \<and> bound_to (log t) fd (to_u16 port) \<and> listens (log t) fd)"
proof -
  let ?fd = "k_socket k []"
  note run = create_server_socket_def host_defs wp_simps assms(2) open_step_def bound_to_def listens_def
  have "wp (create_server_socket k port) (\<lambda>r t. \<exists>fd. r = Ok fd \<and>
      (if fd = -1 then open_socks (log t) = {}
       else open_socks (log t) = {fd} \<and> bound_to (log t) fd (to_u16 port) \<and> listens (log t) fd)) s"
    by (simp add: run open_socks_def)
  with assms(1) show ?thesis by (simp add: wp_def)
qed

text \<open>
  C22: a request queued by \<^verbatim>\<open>add_send_from_group_buff\<close> is one send from the buffer \<open>bid\<close> of the
  pool; its completion, whatever its result, gives back the descriptor, the type and the
  buffer through the eight bytes of user data.
\<close>

theorem send_request_roundtrip:
  assumes "sqe_helpers u" and "is_i32 fd" and "add_send_from_group_buff u fd bid len flags s = (Ok x, t)"
  shows "\<exists>q. queued (log t) = queued (log s) @ [q] \<and> sq_op q = Op_send fd (Obj ''bufs'' (uint bid)) len 0 \<and>
    fd_of (info_of (sq_user_data q)) = fd \<and> ci_type (info_of (sq_user_data q)) = WRITE \<and>
    ci_bid (info_of (sq_user_data q)) = bid"
  using send_group.one_request [OF assms(1,3)] assms(2) by auto

text \<open>
  C30: the functions for \<^verbatim>\<open>recvmsg\<close> and \<^verbatim>\<open>sendmsg\<close> leave a request in the ring whose message
  header is an automatic variable that has ended, before any submit.
\<close>

theorem msg_header_dangles:
  assumes "sqe_helpers u"
    and "add_recvmsg u fd buff len flags s = (Ok (), t) \<or>
      add_recvmsg_from_group_buff u fd gid len flags s = (Ok (), t) \<or>
      add_sendmsg u fd buff len flags s = (Ok (), t) \<or>
      add_sendmsg_from_group_buff u fd bid len flags s = (Ok (), t)"
  shows "\<exists>q. queued (log t) = queued (log s) @ [q] \<and> dangles (log t) q"
  using assms(2)
  by (elim disjE) (auto simp: add_defs comp_simps queue_sqe_def sqe_helpersD [OF assms(1)]
      dangles_header live_step_def split: option.split_asm)

text \<open>
  C21: \<^verbatim>\<open>provide_buffers\<close> returns only when the kernel accepted the whole pool: one request
  for all the buffers of the group is queued and submitted, and its completion, which did
  not fail, is marked as seen.
\<close>

theorem provide_buffers_spec:
  assumes "sqe_helpers u" and "provide_buffers u gid s = (Ok (), t)"
  shows "\<exists>q c r r'. log t = log s @ [Ev_sqe q, Ev_submit r, Ev_wait_cqe r', Ev_cqe c, Ev_cqe_seen] \<and>
    sq_op q = Op_provide_buffers (Obj ''bufs'' 0) MAX_MESSAGE_LEN BUFFERS_COUNT gid 0 \<and> 0 \<le> cq_res c"
  using assms by (auto simp: provide_buffers_def comp_simps host_defs cqe_defs sqe_helpersD
      split: option.splits prod.splits if_splits)

section \<open>Witnesses\<close>

theorem create_server_socket_witness:
  "let t = snd (create_server_socket ex_sock 8080 ex_io) in
     open_socks (log t) = {3} \<and> bound_to (log t) 3 8080 \<and> listens (log t) 3"
proof -
  have "create_server_socket ex_sock 8080 ex_io = (Ok 3, snd (create_server_socket ex_sock 8080 ex_io))"
    by (simp add: create_server_socket_def host_defs comp_simps)
  from create_server_socket_spec [OF this ex_io_log] show ?thesis
    by (simp add: Let_def to_u16_def)
qed

theorem send_request_roundtrip_witness:
  "\<exists>q. queued (log (snd (add_send_from_group_buff (ex_uring []) 5 7 2 0 ex_io))) = [q] \<and>
     fd_of (info_of (sq_user_data q)) = 5 \<and> ci_bid (info_of (sq_user_data q)) = 7"
proof -
  let ?t = "snd (add_send_from_group_buff (ex_uring []) 5 7 2 0 ex_io)"
  have "add_send_from_group_buff (ex_uring []) 5 7 2 0 ex_io = (Ok (), ?t)"
    by (simp add: add_defs comp_simps cqe_defs)
  from send_request_roundtrip [OF ex_uring_helpers _ this] show ?thesis
    by (auto simp: is_i32_def)
qed

theorem msg_header_dangles_witness:
  "\<exists>q. queued (log (snd (add_recvmsg (ex_uring []) 5 NULL 16 0 ex_io))) = [q] \<and>
     dangles (log (snd (add_recvmsg (ex_uring []) 5 NULL 16 0 ex_io))) q"
proof -
  have "add_recvmsg (ex_uring []) 5 NULL 16 0 ex_io = (Ok (), snd (add_recvmsg (ex_uring []) 5 NULL 16 0 ex_io))"
    by (simp add: add_defs comp_simps cqe_defs)
  from msg_header_dangles [OF ex_uring_helpers disjI1 [OF this]] show ?thesis by simp
qed

theorem provide_buffers_witness:
  "\<exists>q c r r'. log (snd (provide_buffers (ex_uring []) 1337 ex_io)) =
       [Ev_sqe q, Ev_submit r, Ev_wait_cqe r', Ev_cqe c, Ev_cqe_seen] \<and> 0 \<le> cq_res c"
proof -
  have "provide_buffers (ex_uring []) 1337 ex_io = (Ok (), snd (provide_buffers (ex_uring []) 1337 ex_io))"
    by (simp add: provide_buffers_def comp_simps host_defs cqe_defs)
  from provide_buffers_spec [OF ex_uring_helpers this] show ?thesis by auto
qed

end
