(* ===== verification/Uring_Echo.thy ===== *)
theory Uring_Echo
  imports Conn_Info Example_Env
begin

text \<open>
  \<^verbatim>\<open>netpoll/echo/c-iouring-server/io_uring_echo_server.c\<close>: the echo server on io_uring with
  automatic buffer selection. Its state between completions is all in the requests it has
  queued, so the model's state is the log.
\<close>

section \<open>Constants\<close>

definition es_BACKLOG :: int where "es_BACKLOG = 512"
definition es_MAX_MESSAGE_LEN :: nat where "es_MAX_MESSAGE_LEN = 2048"
definition es_BUFFERS_COUNT :: nat where "es_BUFFERS_COUNT = 4096"

definition es_ACCEPT :: u16 where "es_ACCEPT = 0"
definition es_READ :: u16 where "es_READ = 1"
definition es_WRITE :: u16 where "es_WRITE = 2"
definition es_PROV_BUF :: u16 where "es_PROV_BUF = 3"

definition es_group_id :: u32 where "es_group_id = 1337"

lemmas es_types = es_ACCEPT_def es_READ_def es_WRITE_def es_PROV_BUF_def

section \<open>Requests\<close>

definition es_add_accept :: "uring \<Rightarrow> int \<Rightarrow> u32 \<Rightarrow> ('x io_scheme, unit) comp" where
  "es_add_accept u fd flags =
     queue_sqe u (\<lambda>q. (u_set_flags u (u_prep u
         (Op_accept fd (Auto ''main'' ''client_addr'') (Auto ''main'' ''client_len'') 0) q) flags)
       \<lparr>sq_user_data := Raw (pack (mk_info fd es_ACCEPT 0))\<rparr>)"

text \<open>The size asked for is not passed on: the receive is prepared with length 0.\<close>

definition es_add_socket_read :: "uring \<Rightarrow> int \<Rightarrow> u32 \<Rightarrow> nat \<Rightarrow> u32 \<Rightarrow> ('x io_scheme, unit) comp" where
  "es_add_socket_read u fd gid message_size flags =
     queue_sqe u (\<lambda>q. (u_set_flags u (u_prep u (Op_recv fd NULL 0 0) q) flags)
       \<lparr>sq_buf_group := ucast gid, sq_user_data := Raw (pack (mk_info fd es_READ 0))\<rparr>)"

definition es_add_socket_write :: "uring \<Rightarrow> int \<Rightarrow> u16 \<Rightarrow> nat \<Rightarrow> u32 \<Rightarrow> ('x io_scheme, unit) comp" where
  "es_add_socket_write u fd bid message_size flags =
     queue_sqe u (\<lambda>q. (u_set_flags u (u_prep u (Op_send fd (Obj ''bufs'' (uint bid)) message_size 0) q) flags)
       \<lparr>sq_user_data := Raw (pack (mk_info fd es_WRITE bid))\<rparr>)"

definition es_add_provide_buf :: "uring \<Rightarrow> u16 \<Rightarrow> u32 \<Rightarrow> ('x io_scheme, unit) comp" where
  "es_add_provide_buf u bid gid =
     queue_sqe u (\<lambda>q. (u_prep u
         (Op_provide_buffers (Obj ''bufs'' (uint bid)) es_MAX_MESSAGE_LEN 1 (uint gid) (uint bid)) q)
       \<lparr>sq_user_data := Raw (pack (mk_info 0 es_PROV_BUF 0))\<rparr>)"

lemmas es_add_defs =
  es_add_accept_def es_add_socket_read_def es_add_socket_write_def es_add_provide_buf_def

section \<open>The event loop\<close>

definition es_handle :: "uring \<Rightarrow> int \<Rightarrow> cqe \<Rightarrow> ('x io_scheme, unit) comp" where
  "es_handle u sock_listen_fd cqe =
     (let conn_i = info_of (cq_user_data cqe); type = ci_type conn_i in
      if cq_res cqe = - ENOBUFS then exit_with 1
      else if type = es_PROV_BUF then (if cq_res cqe < 0 then exit_with 1 else ret ())
      else if type = es_ACCEPT then
        andthen (when_c (0 \<le> cq_res cqe)
            (es_add_socket_read u (cq_res cqe) es_group_id es_MAX_MESSAGE_LEN IOSQE_BUFFER_SELECT))
          (es_add_accept u sock_listen_fd 0)
      else if type = es_READ then
        (if cq_res cqe \<le> 0 then
           andthen (es_add_provide_buf u (to_u16 (bid_of_flags (cq_flags cqe))) es_group_id)
             (close_c (fd_of conn_i))
         else es_add_socket_write u (fd_of conn_i) (to_u16 (bid_of_flags (cq_flags cqe)))
                (nat (cq_res cqe)) 0)
      else if type = es_WRITE then
        andthen (es_add_provide_buf u (ci_bid conn_i) es_group_id)
          (es_add_socket_read u (fd_of conn_i) es_group_id es_MAX_MESSAGE_LEN IOSQE_BUFFER_SELECT)
      else ret ())"

definition es_round :: "uring \<Rightarrow> int \<Rightarrow> ('x io_scheme, unit) comp" where
  "es_round u sock_listen_fd =
     andthen (io_uring_submit_and_wait u 1)
       (bnd (for_each_cqe u (es_handle u sock_listen_fd)) io_uring_cq_advance)"

section \<open>Start-up\<close>

definition es_listen :: "sock \<Rightarrow> int \<Rightarrow> ('x io_scheme, int) comp" where
  "es_listen k portno =
     bnd (socket_c k AF_INET SOCK_STREAM 0) (\<lambda>sock_listen_fd.
       andthen (emit (Ev_setsockopt sock_listen_fd))
      (bnd (bind_c k sock_listen_fd
             \<lparr>sin_family = AF_INET, sin_port = htons (to_u16 portno), sin_addr = INADDR_ANY\<rparr>) (\<lambda>r.
         if r < 0 then exit_with 1
         else bnd (listen_c k sock_listen_fd es_BACKLOG) (\<lambda>r.
           if r < 0 then exit_with 1 else ret sock_listen_fd))))"

definition es_setup_flags :: "string list \<Rightarrow> u32" where
  "es_setup_flags argv = (if 3 \<le> length argv \<and> argv ! 2 = ''sqp'' then IORING_SETUP_SQPOLL else 0)"

definition es_init_ring :: "uring \<Rightarrow> string list \<Rightarrow> ('x io_scheme, unit) comp" where
  "es_init_ring u argv =
     bnd (queue_init_params u 10240 (es_setup_flags argv)) (\<lambda>(r, features).
       if r < 0 then exit_with 1
       else if features AND IORING_FEAT_FAST_POLL = 0 then exit_with 0
       else bnd (probe_provide_buffers u) (\<lambda>supported.
         if \<not> supported then exit_with 0 else ret ()))"

definition es_register_buffers :: "uring \<Rightarrow> ('x io_scheme, unit) comp" where
  "es_register_buffers u =
     andthen (queue_sqe u (u_prep u
         (Op_provide_buffers (Obj ''bufs'' 0) es_MAX_MESSAGE_LEN es_BUFFERS_COUNT (uint es_group_id) 0)))
    (andthen (io_uring_submit u)
    (bnd (io_uring_wait_cqe u) (\<lambda>(_, p).
      bnd (deref_cqe p) (\<lambda>cqe.
        if cq_res cqe < 0 then exit_with 1 else io_uring_cqe_seen))))"

text \<open>\<open>es_main k u argv n\<close> is \<^verbatim>\<open>main\<close> up to the end of round \<open>n\<close> of the event loop.\<close>

definition es_main :: "sock \<Rightarrow> uring \<Rightarrow> string list \<Rightarrow> nat \<Rightarrow> ('x io_scheme, unit) comp" where
  "es_main k u argv n =
     (if length argv < 2 then exit_with 0
      else bnd (es_listen k (to_i32 (strtol10 (argv ! 1)))) (\<lambda>sock_listen_fd.
        andthen (es_init_ring u argv)
       (andthen (es_register_buffers u)
       (andthen (es_add_accept u sock_listen_fd 0)
         (rounds n (es_round u sock_listen_fd))))))"

section \<open>What the log says about the server\<close>

abbreviation es_type :: "udata \<Rightarrow> u16" where
  "es_type d \<equiv> ci_type (info_of d)"

text \<open>The log from the end of start-up on: buffers registered, the pool handed to the kernel.\<close>

definition es_run :: "event list \<Rightarrow> event list" where
  "es_run h = tl (dropWhile (\<lambda>e. e \<noteq> Ev_cqe_seen) h)"

text \<open>Open connections: accepted and not closed since.\<close>

definition es_conn_step :: "int set \<Rightarrow> event \<Rightarrow> int set" where
  "es_conn_step C e = (case e of
      Ev_cqe c \<Rightarrow> if es_type (cq_user_data c) = es_ACCEPT \<and> 0 \<le> cq_res c then insert (cq_res c) C else C
    | Ev_close fd \<Rightarrow> C - {fd}
    | _ \<Rightarrow> C)"

definition es_conns :: "event list \<Rightarrow> int set" where
  "es_conns h = foldl es_conn_step {} h"

text \<open>
  Buffers in the kernel's hands: a request to provide buffers gives them, a completed
  receive that says so in its flags takes the one it reports.
\<close>

definition es_pool_step :: "int multiset \<Rightarrow> event \<Rightarrow> int multiset" where
  "es_pool_step P e = (case e of
      Ev_sqe q \<Rightarrow> (case sq_op q of
          Op_provide_buffers _ _ nr _ bid \<Rightarrow> P + mset_set {bid..<bid + int nr}
        | _ \<Rightarrow> P)
    | Ev_cqe c \<Rightarrow> if es_type (cq_user_data c) = es_READ \<and> cq_flags c AND IORING_CQE_F_BUFFER \<noteq> 0
        then P - {#bid_of_flags (cq_flags c)#} else P
    | _ \<Rightarrow> P)"

definition es_pool :: "event list \<Rightarrow> int multiset" where
  "es_pool h = foldl es_pool_step (mset_set {0..<int es_BUFFERS_COUNT}) h"

definition es_accepts :: "udata multiset \<Rightarrow> nat" where
  "es_accepts M = size {#d \<in># M. es_type d = es_ACCEPT#}"

definition es_busy :: "udata multiset \<Rightarrow> int \<Rightarrow> nat" where
  "es_busy M fd = size {#d \<in># M. (es_type d = es_READ \<or> es_type d = es_WRITE) \<and> fd_of (info_of d) = fd#}"

definition es_writing :: "udata multiset \<Rightarrow> int multiset" where
  "es_writing M = {#uint (ci_bid (info_of d)). d \<in># {#d \<in># M. es_type d = es_WRITE#}#}"

text \<open>
  What io_uring and \<^verbatim>\<open>accept\<close> promise: a completion answers a request in flight, a result
  is a 32-bit integer, and an accepted descriptor is not one already open.
\<close>

definition es_kernel :: "event list \<Rightarrow> cqe \<Rightarrow> bool" where
  "es_kernel h c \<longleftrightarrow> answers h c \<and> is_i32 (cq_res c) \<and>
     (es_type (cq_user_data c) = es_ACCEPT \<and> 0 \<le> cq_res c \<longrightarrow> cq_res c \<notin> es_conns h)"

text \<open>
  What the server relies on beyond that for its buffers: a completed receive, one that
  failed included, reports a buffer the kernel had, and stores no more than it holds.
\<close>

definition es_buffers :: "event list \<Rightarrow> cqe \<Rightarrow> bool" where
  "es_buffers h c \<longleftrightarrow> (es_type (cq_user_data c) = es_READ \<longrightarrow>
     cq_flags c AND IORING_CQE_F_BUFFER \<noteq> 0 \<and> bid_of_flags (cq_flags c) \<in># es_pool h \<and>
     cq_res c \<le> int es_MAX_MESSAGE_LEN)"

definition es_all_bids :: "int multiset" where
  "es_all_bids = mset_set {0..<int es_BUFFERS_COUNT}"

definition es_inv :: "event list \<Rightarrow> bool" where
  "es_inv h \<longleftrightarrow>
     es_accepts (inflight h) = 1 \<and>
     (\<forall>fd. es_busy (inflight h) fd = (if fd \<in> es_conns h then 1 else 0)) \<and>
     (cqes_ok es_buffers h \<longrightarrow> es_pool h + es_writing (inflight h) = es_all_bids)"

section \<open>Steps of the trace functions\<close>

lemma es_type_consts [simp]:
  "es_ACCEPT \<noteq> es_READ" "es_ACCEPT \<noteq> es_WRITE" "es_ACCEPT \<noteq> es_PROV_BUF"
  "es_READ \<noteq> es_ACCEPT" "es_READ \<noteq> es_WRITE" "es_READ \<noteq> es_PROV_BUF"
  "es_WRITE \<noteq> es_ACCEPT" "es_WRITE \<noteq> es_READ" "es_WRITE \<noteq> es_PROV_BUF"
  "es_PROV_BUF \<noteq> es_ACCEPT" "es_PROV_BUF \<noteq> es_READ" "es_PROV_BUF \<noteq> es_WRITE"
  by (simp_all add: es_types)

lemma es_conns_snoc [simp]: "es_conns (h @ [e]) = es_conn_step (es_conns h) e"
  by (simp add: es_conns_def)

lemma es_pool_snoc [simp]: "es_pool (h @ [e]) = es_pool_step (es_pool h) e"
  by (simp add: es_pool_def)

lemma es_counts_empty [simp]: "es_accepts {#} = 0" "es_busy {#} fd = 0" "es_writing {#} = {#}"
  by (simp_all add: es_accepts_def es_busy_def es_writing_def)

lemma es_counts_add [simp]:
  "es_accepts (add_mset d M) = (if es_type d = es_ACCEPT then Suc (es_accepts M) else es_accepts M)"
  "es_busy (add_mset d M) fd =
     (if (es_type d = es_READ \<or> es_type d = es_WRITE) \<and> fd_of (info_of d) = fd
      then Suc (es_busy M fd) else es_busy M fd)"
  "es_writing (add_mset d M) =
     (if es_type d = es_WRITE then add_mset (uint (ci_bid (info_of d))) (es_writing M) else es_writing M)"
  by (simp_all add: es_accepts_def es_busy_def es_writing_def)

lemma es_conns_append [simp]: "es_conns (g @ h) = foldl es_conn_step (es_conns g) h"
  by (simp add: es_conns_def)

lemma es_pool_append [simp]: "es_pool (g @ h) = foldl es_pool_step (es_pool g) h"
  by (simp add: es_pool_def)

lemmas es_steps = es_conn_step_def es_pool_step_def inflight_step_def

section \<open>The handler keeps the invariant\<close>

lemma es_kernel_answers: "cqes_ok es_kernel h \<Longrightarrow> cqes_ok answers h"
  by (erule cqes_ok_mono) (simp add: es_kernel_def)

lemma es_step_inflight:
  assumes "cqes_ok es_kernel h" and "es_kernel h c" and "seen es = []"
  obtains M where "inflight h = add_mset (cq_user_data c) M"
    and "inflight (h @ Ev_cqe c # es) = foldl inflight_step M es"
  using completion_inflight [OF es_kernel_answers [OF assms(1)] _ assms(3)] assms(2)
  by (auto simp: es_kernel_def)

text \<open>The three parts of the invariant, each from its own part at the previous state.\<close>

lemma es_inv_step:
  assumes "es_inv h" "inflight h = N" and h': "h' = h @ Ev_cqe c # es"
    and "es_accepts N = 1 \<Longrightarrow> es_accepts (inflight h') = 1"
    and "\<And>fd. es_busy N fd = (if fd \<in> es_conns h then 1 else 0) \<Longrightarrow>
      es_busy (inflight h') fd = (if fd \<in> es_conns h' then 1 else 0)"
    and "es_buffers h c \<Longrightarrow> es_pool h + es_writing N = es_all_bids \<Longrightarrow>
      es_pool h' + es_writing (inflight h') = es_all_bids"
  shows "es_inv h'"
proof -
  have "cqes_ok es_buffers h' \<Longrightarrow> cqes_ok es_buffers h \<and> es_buffers h c"
    by (simp add: h' cqes_ok_append)
  with assms(1,2,4-) show ?thesis
    by (auto simp: es_inv_def)
qed

lemma es_inv_provided:
  assumes "es_inv h" "cqes_ok es_kernel h" "es_kernel h c"
    and "es_type (cq_user_data c) \<notin> {es_ACCEPT, es_READ, es_WRITE}"
  shows "es_inv (h @ [Ev_cqe c])"
proof -
  obtain M where M: "inflight h = add_mset (cq_user_data c) M" "inflight (h @ [Ev_cqe c]) = M"
    using es_step_inflight [OF assms(2,3), of "[]"] by auto
  show ?thesis
    by (rule es_inv_step [OF assms(1) M(1) refl]) (use assms(4) in \<open>simp_all add: M(2) es_steps\<close>)
qed

lemma es_inv_accept_ok:
  assumes "es_inv h" "cqes_ok es_kernel h" "es_kernel h c"
    and ty: "es_type (cq_user_data c) = es_ACCEPT" and res: "0 \<le> cq_res c"
    and r: "\<exists>f p l fl. sq_op r = Op_recv f p l fl" "sq_user_data r = Raw (pack (mk_info (cq_res c) es_READ 0))"
    and a: "\<exists>f p l fl. sq_op a = Op_accept f p l fl" "sq_user_data a = Raw (pack (mk_info lfd es_ACCEPT 0))"
  shows "es_inv (h @ [Ev_cqe c, Ev_sqe r, Ev_sqe a])"
proof -
  obtain M where M: "inflight h = add_mset (cq_user_data c) M"
    "inflight (h @ [Ev_cqe c, Ev_sqe r, Ev_sqe a]) = foldl inflight_step M [Ev_sqe r, Ev_sqe a]"
    using es_step_inflight [OF assms(2,3), of "[Ev_sqe r, Ev_sqe a]"] by auto
  have "cq_res c \<notin> es_conns h" "is_i32 (cq_res c)"
    using assms(3) ty res by (auto simp: es_kernel_def)
  then show ?thesis
    by (intro es_inv_step [OF assms(1) M(1) refl])
      (use r(1) a(1) in \<open>auto simp: M(2) es_steps ty res r(2) a(2) split: if_splits\<close>)
qed

lemma es_inv_accept_fail:
  assumes "es_inv h" "cqes_ok es_kernel h" "es_kernel h c"
    and ty: "es_type (cq_user_data c) = es_ACCEPT" and res: "\<not> 0 \<le> cq_res c"
    and a: "\<exists>f p l fl. sq_op a = Op_accept f p l fl" "sq_user_data a = Raw (pack (mk_info lfd es_ACCEPT 0))"
  shows "es_inv (h @ [Ev_cqe c, Ev_sqe a])"
proof -
  obtain M where M: "inflight h = add_mset (cq_user_data c) M"
    "inflight (h @ [Ev_cqe c, Ev_sqe a]) = foldl inflight_step M [Ev_sqe a]"
    using es_step_inflight [OF assms(2,3), of "[Ev_sqe a]"] by auto
  show ?thesis
    by (rule es_inv_step [OF assms(1) M(1) refl])
      (use res a(1) in \<open>auto simp: M(2) es_steps ty a(2) split: if_splits\<close>)
qed

lemma int_singleton: "{b..<b + 1} = {b :: int}"
  by auto

lemma es_inv_read_end:
  assumes "es_inv h" "cqes_ok es_kernel h" "es_kernel h c"
    and ty: "es_type (cq_user_data c) = es_READ"
    and b: "\<exists>p l g. sq_op b = Op_provide_buffers p l 1 g (bid_of_flags (cq_flags c))"
      "sq_user_data b = Raw (pack (mk_info 0 es_PROV_BUF 0))"
  shows "es_inv (h @ [Ev_cqe c, Ev_sqe b, Ev_close (fd_of (info_of (cq_user_data c)))])"
proof -
  let ?es = "[Ev_sqe b, Ev_close (fd_of (info_of (cq_user_data c)))]"
  obtain M where M: "inflight h = add_mset (cq_user_data c) M"
    "inflight (h @ Ev_cqe c # ?es) = foldl inflight_step M ?es"
    using es_step_inflight [OF assms(2,3), of ?es] by auto
  show ?thesis
    by (rule es_inv_step [OF assms(1) M(1) refl])
      (use b(1) in \<open>auto simp: M(2) es_steps es_buffers_def ty b(2) int_singleton split: if_splits\<close>)
qed

lemma es_inv_read_data:
  assumes "es_inv h" "cqes_ok es_kernel h" "es_kernel h c"
    and ty: "es_type (cq_user_data c) = es_READ"
    and w: "\<exists>f p l fl. sq_op w = Op_send f p l fl"
      "sq_user_data w = Raw (pack (mk_info (fd_of (info_of (cq_user_data c))) es_WRITE
          (to_u16 (bid_of_flags (cq_flags c)))))"
  shows "es_inv (h @ [Ev_cqe c, Ev_sqe w])"
proof -
  obtain M where M: "inflight h = add_mset (cq_user_data c) M"
    "inflight (h @ [Ev_cqe c, Ev_sqe w]) = foldl inflight_step M [Ev_sqe w]"
    using es_step_inflight [OF assms(2,3), of "[Ev_sqe w]"] by auto
  show ?thesis
  proof (rule es_inv_step [OF assms(1) M(1) refl])
    assume b: "es_buffers h c" and inv: "es_pool h + es_writing (add_mset (cq_user_data c) M) = es_all_bids"
    then have "cq_flags c AND IORING_CQE_F_BUFFER \<noteq> 0" and "bid_of_flags (cq_flags c) \<in># es_pool h"
      by (simp_all add: es_buffers_def ty)
    moreover from this obtain P where "es_pool h = add_mset (bid_of_flags (cq_flags c)) P"
      by (metis multi_member_split)
    ultimately show "es_pool (h @ [Ev_cqe c, Ev_sqe w]) + es_writing (inflight (h @ [Ev_cqe c, Ev_sqe w])) =
        es_all_bids"
      using w(1) inv by (auto simp: M(2) es_steps ty w(2) to_u16_bid)
  qed (use w(1) in \<open>auto simp: M(2) es_steps ty w(2) fd_of_range split: if_splits\<close>)
qed

lemma es_inv_written:
  assumes "es_inv h" "cqes_ok es_kernel h" "es_kernel h c"
    and ty: "es_type (cq_user_data c) = es_WRITE"
    and b: "\<exists>p l g. sq_op b = Op_provide_buffers p l 1 g (uint (ci_bid (info_of (cq_user_data c))))"
      "sq_user_data b = Raw (pack (mk_info 0 es_PROV_BUF 0))"
    and r: "\<exists>f p l fl. sq_op r = Op_recv f p l fl"
      "sq_user_data r = Raw (pack (mk_info (fd_of (info_of (cq_user_data c))) es_READ 0))"
  shows "es_inv (h @ [Ev_cqe c, Ev_sqe b, Ev_sqe r])"
proof -
  obtain M where M: "inflight h = add_mset (cq_user_data c) M"
    "inflight (h @ [Ev_cqe c, Ev_sqe b, Ev_sqe r]) = foldl inflight_step M [Ev_sqe b, Ev_sqe r]"
    using es_step_inflight [OF assms(2,3), of "[Ev_sqe b, Ev_sqe r]"] by auto
  show ?thesis
    by (rule es_inv_step [OF assms(1) M(1) refl])
      (use b(1) r(1) in \<open>auto simp: M(2) es_steps ty b(2) r(2) int_singleton fd_of_range split: if_splits\<close>)
qed

lemma extends_es_handle [extends_intros]: "extends (es_handle u lfd c)"
  unfolding es_handle_def Let_def es_add_defs close_c_def by (intro extends_intros)

lemma es_handle_step:
  assumes u: "sqe_helpers u" and n: "n \<le> length (log s)"
    and inv: "es_inv (drop n (log s))" "cqes_ok es_kernel (drop n (log s))" "es_kernel (drop n (log s)) c"
  shows "wp (es_handle u lfd c) (on_ok (\<lambda>_ t. n \<le> length (log t) \<and> es_inv (drop n (log t))))
    (s\<lparr>log := log s @ [Ev_cqe c]\<rparr>)"
proof -
  have d: "drop n (log s @ es) = drop n (log s) @ es" for es
    using n by simp
  note run = es_handle_def Let_def es_add_defs wp_simps sqe_helpersD [OF u] close_c_def d n
  let ?ty = "es_type (cq_user_data c)"
  consider "?ty \<notin> {es_ACCEPT, es_READ, es_WRITE}" | "?ty = es_ACCEPT" | "?ty = es_READ" | "?ty = es_WRITE"
    by blast
  then show ?thesis
  proof cases
    case 1
    then show ?thesis
      using n by (simp add: run es_inv_provided [OF inv] le_SucI)
  next
    case 2
    then show ?thesis
      using n by (simp add: run es_inv_accept_ok [OF inv] es_inv_accept_fail [OF inv] le_SucI
          split: option.split)
  next
    case 3
    then show ?thesis
      using n by (simp add: run es_inv_read_end [OF inv] es_inv_read_data [OF inv] to_u16_bid
          le_SucI split: option.split)
  next
    case 4
    then show ?thesis
      using n by (simp add: run es_inv_written [OF inv] le_SucI split: option.split)
  qed
qed

section \<open>From the handler to the program\<close>

lemma extends_es_round [extends_intros]: "extends (es_round u lfd)"
  unfolding es_round_def io_uring_submit_and_wait_def io_uring_cq_advance_def
  by (intro extends_intros)

lemma es_run_start: "Ev_cqe_seen \<notin> set pre \<Longrightarrow> es_run (pre @ Ev_cqe_seen # h) = h"
  by (induction pre) (auto simp: es_run_def)

lemma es_listen_log:
  "Ev_cqe_seen \<notin> set (log s) \<Longrightarrow> wp (es_listen k p) (on_ok (\<lambda>_ t. Ev_cqe_seen \<notin> set (log t))) s"
  by (simp add: es_listen_def host_defs wp_simps)

lemma es_init_ring_log:
  "Ev_cqe_seen \<notin> set (log s) \<Longrightarrow> wp (es_init_ring u argv) (on_ok (\<lambda>_ t. Ev_cqe_seen \<notin> set (log t))) s"
  by (simp add: es_init_ring_def host_defs wp_simps split: prod.split)

lemma es_register_buffers_log:
  "Ev_cqe_seen \<notin> set (log s) \<Longrightarrow>
    wp (es_register_buffers u) (on_ok (\<lambda>_ t. \<exists>pre. log t = pre @ [Ev_cqe_seen] \<and> Ev_cqe_seen \<notin> set pre)) s"
  by (auto simp: es_register_buffers_def io_uring_wait_cqe_def wp_simps io_uring_submit_def
      io_uring_cqe_seen_def split: option.split prod.split)

text \<open>
  What the program needs of a property \<open>J\<close> of its run under the contract \<open>K\<close>: it holds of
  the first accept request, the handler keeps it, and waiting and advancing the ring do
  not touch it. Then it holds after any number of rounds of \<^verbatim>\<open>main\<close>.
\<close>

locale es_property =
  fixes K :: "event list \<Rightarrow> cqe \<Rightarrow> bool" and J :: "event list \<Rightarrow> bool"
  assumes start: "\<exists>f p l fl. sq_op q = Op_accept f p l fl \<Longrightarrow>
      sq_user_data q = Raw (pack (mk_info lfd es_ACCEPT 0)) \<Longrightarrow> J [Ev_sqe q]"
    and step: "sqe_helpers u \<Longrightarrow> n \<le> length (log s) \<Longrightarrow> J (drop n (log s)) \<Longrightarrow>
      cqes_ok K (drop n (log s)) \<Longrightarrow> K (drop n (log s)) c \<Longrightarrow>
      wp (es_handle u lfd c) (on_ok (\<lambda>_ t :: io. n \<le> length (log t) \<and> J (drop n (log t))))
        (s\<lparr>log := log s @ [Ev_cqe c]\<rparr>)"
    and wait: "J h \<Longrightarrow> J (h @ [Ev_submit_and_wait i r])"
    and advance: "J h \<Longrightarrow> J (h @ [Ev_cq_advance m])"
begin

abbreviation running :: "uring \<Rightarrow> nat \<Rightarrow> io \<Rightarrow> bool" where
  "running u n \<equiv> guarded (since n K) (\<lambda>s. sqe_helpers u \<and> n \<le> length (log s) \<and> J (drop n (log s)))"

lemma handler: "ring_server (es_handle u lfd) (since n K) UNIV
    (\<lambda>s :: io. sqe_helpers u \<and> n \<le> length (log s) \<and> J (drop n (log s)))"
proof unfold_locales
  fix s :: io and c
  assume I: "sqe_helpers u \<and> n \<le> length (log s) \<and> J (drop n (log s))"
    and ok: "cqes_ok (since n K) (log s)" and c: "since n K (log s) c"
  from I have "cqes_ok K (drop n (log s))"
    using ok cqes_ok_since [of "take n (log s)" K "drop n (log s)"] by simp
  moreover from I c have "K (drop n (log s)) c"
    by (simp add: since_def)
  ultimately have "wp (es_handle u lfd c) (on_ok (\<lambda>_ t. n \<le> length (log t) \<and> J (drop n (log t))))
      (s\<lparr>log := log s @ [Ev_cqe c]\<rparr>)"
    using I by (intro step) auto
  then show "wp (es_handle u lfd c)
      (only UNIV (\<lambda>_ s. sqe_helpers u \<and> n \<le> length (log s) \<and> J (drop n (log s))))
      (s\<lparr>log := log s @ [Ev_cqe c]\<rparr>)"
    using I by (simp add: wp_def on_ok_only)
qed (intro extends_intros)

lemma round:
  assumes "running u n s"
  shows "wp (es_round u lfd) (on_ok (\<lambda>_. running u n)) s"
proof -
  let ?s = "s\<lparr>log := log s @ [Ev_submit_and_wait 1 (u_submit_and_wait u (log s) 1)]\<rparr>"
  have "running u n ?s"
    using assms by (auto simp: guarded_def wait)
  then have "wp (for_each_cqe u (es_handle u lfd)) (on_ok (\<lambda>_. running u n)) ?s"
    using ring_server.for_each_admits [OF handler] by (simp add: admits_UNIV)
  then have "wp (for_each_cqe u (es_handle u lfd))
      (on_ok (\<lambda>m. wp (io_uring_cq_advance m) (on_ok (\<lambda>_. running u n)))) ?s"
    by (rule wp_mono)
      (auto simp: on_ok_def wp_simps io_uring_cq_advance_def guarded_def advance split: outcome.splits)
  then show ?thesis
    by (simp add: es_round_def wp_simps io_uring_submit_and_wait_def)
qed

lemma serve:
  fixes s :: io
  assumes u: "sqe_helpers u" and l: "log s = pre @ [Ev_cqe_seen]" "Ev_cqe_seen \<notin> set pre"
  shows "wp (andthen (es_add_accept u lfd 0) (rounds m (es_round u lfd)))
    (on_ok (\<lambda>_ t. cqes_ok K (es_run (log t)) \<longrightarrow> J (es_run (log t)))) s"
proof (cases "u_get_sqe u (log s)")
  case None
  then show ?thesis by (simp add: wp_simps es_add_accept_def)
next
  case (Some slot)
  let ?q = "(u_set_flags u (u_prep u (Op_accept lfd (Auto ''main'' ''client_addr'')
      (Auto ''main'' ''client_len'') 0) slot) 0)\<lparr>sq_user_data := Raw (pack (mk_info lfd es_ACCEPT 0))\<rparr>"
  let ?s = "s\<lparr>log := log s @ [Ev_sqe ?q]\<rparr>" and ?n = "Suc (length pre)"
  have "J [Ev_sqe ?q]"
    by (rule start) (simp_all add: sqe_helpersD [OF u])
  then have "running u ?n ?s"
    using l u by (simp add: guarded_def)
  then have "wp (rounds m (es_round u lfd)) (on_ok (\<lambda>_. running u ?n)) ?s"
    by (rule wp_rounds_ok) (rule round)
  then have "wp (rounds m (es_round u lfd))
      (on_ok (\<lambda>_ t. cqes_ok K (es_run (log t)) \<longrightarrow> J (es_run (log t)))) ?s"
  proof (elim wp_mono_run)
    fix r t
    assume run: "rounds m (es_round u lfd) ?s = (r, t)" and G: "on_ok (\<lambda>_. running u ?n) r t"
    have "extends (rounds m (es_round u lfd))"
      by (intro extends_intros)
    then obtain es where "log t = log ?s @ es"
      using extendsD [of "rounds m (es_round u lfd)" ?s r t] run by blast
    then have "log t = (pre @ [Ev_cqe_seen]) @ (Ev_sqe ?q # es)"
      using l by simp
    moreover from this have "es_run (log t) = Ev_sqe ?q # es"
      using l by (simp add: es_run_start)
    ultimately show "on_ok (\<lambda>_ t. cqes_ok K (es_run (log t)) \<longrightarrow> J (es_run (log t))) r t"
      using G cqes_ok_since [of "pre @ [Ev_cqe_seen]" K "Ev_sqe ?q # es"]
      by (cases r) (auto simp: guarded_def)
  qed
  then show ?thesis
    using Some by (simp add: wp_simps es_add_accept_def)
qed

lemma program:
  fixes s :: io
  assumes "sqe_helpers u" and "log s = []"
    and "es_main k u argv m s = (Ok (), t)" and "cqes_ok K (es_run (log t))"
  shows "J (es_run (log t))"
proof -
  have "wp (es_main k u argv m) (on_ok (\<lambda>_ t. cqes_ok K (es_run (log t)) \<longrightarrow> J (es_run (log t)))) s"
    using assms(1,2)
    by (auto simp: es_main_def wp_if wp_exit simp del: cqes_ok_snoc intro!: wp_bnd_ok [OF es_listen_log]
        wp_andthen_ok [OF es_init_ring_log] wp_andthen_ok [OF es_register_buffers_log] serve)
  then show ?thesis
    using assms(3,4) by (simp add: wp_def)
qed

end

lemma es_inv_other [simp]:
  "es_inv (h @ [Ev_submit_and_wait k r]) = es_inv h" "es_inv (h @ [Ev_cq_advance m]) = es_inv h"
  by (simp_all add: es_inv_def es_steps inflight_other)

interpretation es_inv: es_property es_kernel es_inv
proof unfold_locales
  show "es_inv [Ev_sqe q]" if "\<exists>f p l fl. sq_op q = Op_accept f p l fl"
    "sq_user_data q = Raw (pack (mk_info lfd es_ACCEPT 0))" for q lfd
    using that inflight_sqe [of "[]" q] by (auto simp: es_inv_def es_conns_def es_pool_def es_all_bids_def es_steps)
qed (simp_all add: es_handle_step)

section \<open>What is sent is what was received\<close>

definition es_send_of :: "sqe \<Rightarrow> (int \<times> ptr \<times> nat) option" where
  "es_send_of q = (case sq_op q of Op_send fd p n _ \<Rightarrow> Some (fd, p, n) | _ \<Rightarrow> None)"

definition es_sends :: "event list \<Rightarrow> (int \<times> ptr \<times> nat) list" where
  "es_sends h = List.map_filter es_send_of (queued h)"

definition es_received :: "cqe \<Rightarrow> (int \<times> ptr \<times> nat) option" where
  "es_received c = (if es_type (cq_user_data c) = es_READ \<and> 0 < cq_res c
     then Some (fd_of (info_of (cq_user_data c)), Obj ''bufs'' (bid_of_flags (cq_flags c)), nat (cq_res c))
     else None)"

definition es_receives :: "event list \<Rightarrow> (int \<times> ptr \<times> nat) list" where
  "es_receives h = List.map_filter es_received (seen h)"

definition es_mirrors :: "event list \<Rightarrow> bool" where
  "es_mirrors h \<longleftrightarrow> es_sends h = es_receives h"

lemmas es_mirror_defs = es_mirrors_def es_sends_def es_receives_def map_filter_append map_filter_simps
  es_send_of_def es_received_def

lemma es_mirrors_step:
  assumes u: "sqe_helpers u" and n: "n \<le> length (log s)" and inv: "es_mirrors (drop n (log s))"
  shows "wp (es_handle u lfd c) (on_ok (\<lambda>_ t. n \<le> length (log t) \<and> es_mirrors (drop n (log t))))
    (s\<lparr>log := log s @ [Ev_cqe c]\<rparr>)"
  using n inv by (auto simp: es_handle_def Let_def es_add_defs wp_simps sqe_helpersD [OF u] close_c_def
      to_u16_bid es_mirror_defs le_SucI split: option.split)

interpretation es_mirror: es_property "\<lambda>_ _. True" es_mirrors
proof unfold_locales
  show "es_mirrors [Ev_sqe q]" if "\<exists>f p l fl. sq_op q = Op_accept f p l fl" for q
    using that by (auto simp: es_mirror_defs)
qed (simp_all add: es_mirrors_step, simp_all add: es_mirror_defs)

section \<open>Use of the submission ring\<close>

lemma within_es_handle:
  assumes "has_room u N"
  shows "within {} N 2 (andthen (emit (Ev_cqe c)) (es_handle u lfd c))"
  by (auto simp: within_def es_handle_def Let_def es_add_defs wp_simps close_c_def pending_step_def
      split: option.split dest!: has_room_None [OF assms])

lemma es_round_sound:
  assumes "has_room u N" and "\<And>h. 2 * length (u_cqes u h) \<le> N"
  shows "wp (es_round u lfd) (sound (\<lambda>_ _. True)) s"
proof -
  let ?s = "s\<lparr>log := log s @ [Ev_submit_and_wait 1 (u_submit_and_wait u (log s) 1)]\<rparr>"
  have "wp (for_each_cqe u (es_handle u lfd)) (sound (\<lambda>_ t. pending (log t) \<le> N)) ?s"
    unfolding sound_only by (rule within_for_each [where d = 2]) (use assms in \<open>simp_all add: within_es_handle pending_step_def\<close>)
  then show ?thesis
    by (simp add: es_round_def io_uring_submit_and_wait_def io_uring_cq_advance_def wp_simps)
       (erule wp_mono, erule sound_mono, simp)
qed

lemma es_main_sound:
  assumes "has_room u N" "0 < N" and "\<And>h. 2 * length (u_cqes u h) \<le> N"
    and "\<And>h. snd (u_wait_cqe u h) \<noteq> None" and "log s = []"
  shows "wp (es_main k u argv n) (sound (\<lambda>_ _. True)) s"
proof -
  have acc: "wp (andthen (es_add_accept u lfd 0) (rounds n (es_round u lfd))) (sound (\<lambda>_ _. True)) t"
    if "pending (log t) = 0" for lfd t
    using has_room_Some [OF assms(1), of "log t"] that assms(2)
    by (intro wp_andthen_sound [where P = "\<lambda>_ _. True"])
      (auto simp: es_add_accept_def wp_simps intro!: wp_rounds_sound es_round_sound [OF assms(1,3)])
  have reg: "wp (es_register_buffers u) (sound (\<lambda>_ t. pending (log t) = 0)) t"
    if empty: "pending (log t) = 0" for t
  proof -
    obtain q where "u_get_sqe u (log t) = Some q"
      using has_room_Some [OF assms(1), of "log t"] empty assms(2) by auto
    moreover have "u_wait_cqe u h \<noteq> (r, None)" for h r
      using assms(4) [of h] by auto
    ultimately show ?thesis
      by (auto simp: es_register_buffers_def io_uring_wait_cqe_def io_uring_submit_def
          io_uring_cqe_seen_def wp_simps pending_step_def split: option.split prod.split)
  qed
  have "wp (es_listen k p) (sound (\<lambda>_ t. pending (log t) = 0)) s" for p
    using assms(5) by (simp add: es_listen_def host_defs wp_simps pending_def pending_step_def)
  moreover have "wp (es_init_ring u argv) (sound (\<lambda>_ t. pending (log t) = 0)) t"
    if "pending (log t) = 0" for t
    using that by (simp add: es_init_ring_def host_defs wp_simps pending_step_def split: prod.split)
  ultimately show ?thesis
    by (auto simp: es_main_def wp_if wp_exit intro!: wp_bnd_sound wp_andthen_sound reg acc)
qed

section \<open>Requests stay inside the buffer pool\<close>

fun es_op_safe :: "sqe_op \<Rightarrow> bool" where
  "es_op_safe (Op_send _ p len _) = (case p of
      Obj x i \<Rightarrow> x = ''bufs'' \<and> 0 \<le> i \<and> i < int es_BUFFERS_COUNT \<and> len \<le> es_MAX_MESSAGE_LEN
    | _ \<Rightarrow> False)"
| "es_op_safe (Op_provide_buffers p len nr _ bid) =
     (p = Obj ''bufs'' bid \<and> len = es_MAX_MESSAGE_LEN \<and> 0 \<le> bid \<and> bid + int nr \<le> int es_BUFFERS_COUNT)"
| "es_op_safe _ = True"

definition es_safe :: "event list \<Rightarrow> bool" where
  "es_safe h \<longleftrightarrow> (cqes_ok es_buffers h \<longrightarrow> list_all (\<lambda>q. es_op_safe (sq_op q)) (queued h))"

lemma es_bid_range:
  assumes "es_inv h" "cqes_ok es_buffers h" "b \<in># es_pool h + es_writing (inflight h)"
  shows "0 \<le> b \<and> b < int es_BUFFERS_COUNT"
  using assms by (simp add: es_inv_def es_all_bids_def)

lemma es_written_range:
  assumes "es_inv h" "cqes_ok es_buffers h" "es_kernel h c" "es_type (cq_user_data c) = es_WRITE"
  shows "uint (ci_bid (info_of (cq_user_data c))) < int es_BUFFERS_COUNT"
proof -
  have "uint (ci_bid (info_of (cq_user_data c))) \<in># es_writing (inflight h)"
    using assms(3,4) by (auto simp: es_kernel_def answers_def es_writing_def)
  then show ?thesis
    using es_bid_range [OF assms(1,2)] by simp
qed

lemma es_safe_handle:
  assumes u: "sqe_helpers u" and n: "n \<le> length (log s)"
    and inv: "es_inv (drop n (log s))" "es_safe (drop n (log s))" "es_kernel (drop n (log s)) c"
  shows "wp (es_handle u lfd c) (on_ok (\<lambda>_ t. es_safe (drop n (log t)))) (s\<lparr>log := log s @ [Ev_cqe c]\<rparr>)"
proof -
  have d: "drop n (log s @ es) = drop n (log s) @ es" for es
    using n by simp
  show ?thesis
    using n inv(2) es_written_range [OF inv(1) _ inv(3)] es_bid_range [OF inv(1), of "bid_of_flags (cq_flags c)"]
    by (auto simp: es_handle_def Let_def es_add_defs wp_simps sqe_helpersD [OF u] close_c_def d
        es_safe_def es_buffers_def cqes_ok_append to_u16_bid split: option.split)
qed

interpretation es_safe: es_property es_kernel "\<lambda>h. es_inv h \<and> es_safe h"
proof unfold_locales
  show "es_inv [Ev_sqe q] \<and> es_safe [Ev_sqe q]" if "\<exists>f p l fl. sq_op q = Op_accept f p l fl"
    "sq_user_data q = Raw (pack (mk_info lfd es_ACCEPT 0))" for q lfd
    using that es_inv.start by (auto simp: es_safe_def)
next
  fix u n c lfd and s :: io
  assume "sqe_helpers u" "n \<le> length (log s)" "es_inv (drop n (log s)) \<and> es_safe (drop n (log s))"
    "cqes_ok es_kernel (drop n (log s))" "es_kernel (drop n (log s)) c"
  then have "wp (es_handle u lfd c)
      (on_ok (\<lambda>_ t. (n \<le> length (log t) \<and> es_inv (drop n (log t))) \<and> es_safe (drop n (log t))))
      (s\<lparr>log := log s @ [Ev_cqe c]\<rparr>)"
    by (intro wp_conj_ok es_handle_step es_safe_handle) simp_all
  then show "wp (es_handle u lfd c)
      (on_ok (\<lambda>_ t. n \<le> length (log t) \<and> es_inv (drop n (log t)) \<and> es_safe (drop n (log t))))
      (s\<lparr>log := log s @ [Ev_cqe c]\<rparr>)"
    by simp
qed (auto simp: es_safe_def)

section \<open>Properties\<close>

text \<open>
  C1: after any number of rounds of the event loop exactly one accept request is in flight,
  every open connection has exactly one receive or send in flight, and no request is in
  flight for a descriptor that is not an open connection.
\<close>

theorem es_one_request_per_connection:
  fixes s :: io
  assumes "sqe_helpers u" and "log s = []" and "es_main k u argv n s = (Ok (), t)"
    and "cqes_ok es_kernel (es_run (log t))"
  shows "es_accepts (inflight (es_run (log t))) = 1 \<and>
    (\<forall>fd. es_busy (inflight (es_run (log t))) fd = (if fd \<in> es_conns (es_run (log t)) then 1 else 0))"
  using es_inv.program [OF assms] by (simp add: es_inv_def)





text \<open>
  C31: the buffer number of a completed receive is read without a look at
  \<^verbatim>\<open>IORING_CQE_F_BUFFER\<close>: a receive that failed with no buffer in its flags makes the server
  provide buffer 0 again, which is then twice in the kernel's pool.
\<close>

theorem es_failed_read_provides_twice:
  assumes "sqe_helpers u" and "es_type (cq_user_data c) = es_READ"
    and "cq_res c < 0" and "cq_res c \<noteq> -105" and "cq_flags c = 0" and "0 \<in># es_pool (log s)"
    and "es_handle u lfd c (s\<lparr>log := log s @ [Ev_cqe c]\<rparr>) = (Ok (), t)"
  shows "2 \<le> count (es_pool (log t)) 0"
proof -
  have "bid_of_flags 0 = 0"
    by (simp add: bid_of_flags_def to_i32_def)
  then have "es_pool (log t) = add_mset 0 (es_pool (log s))"
    using assms(2-5,7) by (auto simp: es_handle_def Let_def es_add_defs comp_simps queue_sqe_def close_c_def
        sqe_helpersD [OF assms(1)] es_steps to_u16_def int_singleton split: option.splits)
  then show ?thesis
    using assms(6) by (simp add: Suc_le_eq flip: count_greater_zero_iff)
qed

section \<open>A run\<close>

text \<open>One client connects on descriptor 5 and sends two bytes, which the kernel puts into buffer 7.\<close>

definition ex_es_script :: "cqe list list" where
  "ex_es_script =
     [[\<lparr>cq_user_data = Raw (pack (mk_info 3 es_ACCEPT 0)), cq_res = 5, cq_flags = 0\<rparr>],
      [\<lparr>cq_user_data = Raw (pack (mk_info 5 es_READ 0)), cq_res = 2, cq_flags = 0x70001\<rparr>]]"

definition ex_es_run :: "unit outcome \<times> io" where
  "ex_es_run = es_main ex_sock (ex_uring ex_es_script) [''server'', ''8080''] 2 ex_io"

lemma es_run_skip [simp]: "es_run (e # h) = (if e = Ev_cqe_seen then h else es_run h)"
  by (simp add: es_run_def)

lemmas ex_es_defs = ex_es_run_def es_main_def es_listen_def es_init_ring_def es_register_buffers_def
  es_setup_flags_def es_round_def cqe_defs es_add_defs es_handle_def ex_es_script_def ex_waits_def

lemma ex_es_main:
  "es_main ex_sock (ex_uring ex_es_script) [''server'', ''8080''] 2 ex_io = (Ok (), snd ex_es_run)"
  by (simp add: ex_es_defs host_defs comp_simps Let_def)

lemma ex_es_bid: "bid_of_flags 0x70001 = 7" "bid_of_flags 0 = 0"
  by (simp_all add: bid_of_flags_def to_i32_def)

lemma ex_es_kernel: "cqes_ok es_kernel (es_run (log (snd ex_es_run)))"
  by (simp add: ex_es_defs host_defs comp_simps Let_def cqes_ok_def es_kernel_def answers_def inflight_def
    es_conns_def es_steps is_i32_def)

lemma ex_es_buffers: "cqes_ok es_buffers (es_run (log (snd ex_es_run)))"
  by (simp add: ex_es_defs host_defs comp_simps Let_def cqes_ok_def es_buffers_def es_pool_def es_steps
    ex_es_bid es_BUFFERS_COUNT_def es_MAX_MESSAGE_LEN_def)

lemma ex_es_conns: "es_conns (es_run (log (snd ex_es_run))) = {5}"
  by (simp add: ex_es_defs host_defs comp_simps Let_def es_conns_def es_steps)

lemma ex_es_writing: "es_writing (inflight (es_run (log (snd ex_es_run)))) = {#7#}"
  by (simp add: ex_es_defs host_defs comp_simps Let_def inflight_def ex_es_bid to_u16_def)

lemma ex_es_receives: "es_receives (es_run (log (snd ex_es_run))) = [(5, Obj ''bufs'' 7, 2)]"
  by (simp add: ex_es_defs host_defs comp_simps Let_def es_mirror_defs ex_es_bid is_i32_def)

theorem es_one_request_per_connection_witness:
  "es_accepts (inflight (es_run (log (snd ex_es_run)))) = 1 \<and>
   es_busy (inflight (es_run (log (snd ex_es_run)))) 5 = 1 \<and>
   es_busy (inflight (es_run (log (snd ex_es_run)))) 6 = 0"
  using es_one_request_per_connection [OF ex_uring_helpers ex_io_log ex_es_main ex_es_kernel] ex_es_conns
  by simp





theorem es_failed_read_provides_twice_witness:
  "2 \<le> count (es_pool (log (snd (es_handle (ex_uring []) 3
      \<lparr>cq_user_data = Raw (pack (mk_info 5 es_READ 0)), cq_res = -104, cq_flags = 0\<rparr>
      (ex_io\<lparr>log := [] @ [Ev_cqe \<lparr>cq_user_data = Raw (pack (mk_info 5 es_READ 0)), cq_res = -104, cq_flags = 0\<rparr>]\<rparr>))))) 0"
  by (rule es_failed_read_provides_twice [where u = "ex_uring []" and s = ex_io and lfd = 3
        and c = "\<lparr>cq_user_data = Raw (pack (mk_info 5 es_READ 0)), cq_res = -104, cq_flags = 0\<rparr>"])
    (simp_all add: es_pool_def es_BUFFERS_COUNT_def es_handle_def Let_def es_add_defs comp_simps cqe_defs close_c_def)

end
