(* ===== verification/Liburing_File.thy ===== *)
theory Liburing_File
  imports Ring_Trace Example_Env
begin

text \<open>
  \<^verbatim>\<open>iouring/liburing.c\<close>: file reads and writes pushed into a ring on behalf of a Go program,
  and their completions popped. The ring is the environment's; the state is the log and
  the \<^verbatim>\<open>struct file_info\<close> objects by their address.
\<close>

section \<open>Data\<close>

definition QUEUE_DEPTH :: nat where "QUEUE_DEPTH = 16"
definition INITIAL_NUM_BLOCKS :: int where "INITIAL_NUM_BLOCKS = 7"

definition IORING_OP_READV :: u8 where "IORING_OP_READV = 1"
definition IORING_OP_WRITEV :: u8 where "IORING_OP_WRITEV = 2"

record file_info =
  fi_opcode :: u8
  fi_file_sz :: int
  fi_file_fd :: int
  fi_iovecs :: "iovec list"

record files = io +
  fi_heap :: "ptr \<rightharpoonup> file_info"

text \<open>The size of the structure with its iovecs.\<close>

definition fi_alloc_size :: "int \<Rightarrow> nat" where
  "fi_alloc_size n = 24 + 16 * nat n"

section \<open>Operations\<close>

text \<open>The number of blocks as \<^verbatim>\<open>pop_request\<close> computes it.\<close>

definition pop_blocks :: "int \<Rightarrow> int" where
  "pop_blocks file_sz =
     (let initial_block_size = file_sz sdiv INITIAL_NUM_BLOCKS;
          total_blocks = (if initial_block_size = 0 then 0 else INITIAL_NUM_BLOCKS)
      in if 0 < file_sz - initial_block_size * total_blocks then total_blocks + 1 else total_blocks)"

text \<open>Number of blocks, size of a block and size of the last, as \<^verbatim>\<open>push_read_request\<close> computes them.\<close>

definition push_blocks :: "int \<Rightarrow> int \<times> int \<times> int" where
  "push_blocks file_sz =
     (let initial_block_size = file_sz sdiv INITIAL_NUM_BLOCKS;
          total_blocks = (if initial_block_size = 0 then 0 else INITIAL_NUM_BLOCKS)
      in if 0 < file_sz - initial_block_size * total_blocks
         then (total_blocks + 1, initial_block_size, file_sz - initial_block_size * total_blocks)
         else (total_blocks, initial_block_size, initial_block_size))"

text \<open>
  The loop that fills the iovecs. It returns those filled and whether every block was
  allocated; on a failure the function returns with the blocks so far still allocated.
\<close>

primrec fill_iovecs :: "alloc \<Rightarrow> int list \<Rightarrow> int \<Rightarrow> int \<Rightarrow> int \<Rightarrow> (files, iovec list \<times> bool) comp" where
  "fill_iovecs a [] total_blocks initial_block_size last_block_size = ret ([], True)"
| "fill_iovecs a (i # is) total_blocks initial_block_size last_block_size =
     (let current_block_size = (if i = total_blocks - 1 then last_block_size else initial_block_size) in
      bnd (malloc_c a (to_size current_block_size)) (\<lambda>buf.
        if buf = NULL then ret ([], False)
        else bnd (fill_iovecs a is total_blocks initial_block_size last_block_size) (\<lambda>(vs, ok).
          ret (\<lparr>iov_base = buf, iov_len = to_size current_block_size\<rparr> # vs, ok))))"

definition push_read_request :: "alloc \<Rightarrow> uring \<Rightarrow> int \<Rightarrow> int \<Rightarrow> (files, int) comp" where
  "push_read_request a u file_fd file_sz =
     (let (total_blocks, initial_block_size, last_block_size) = push_blocks file_sz in
      bnd (malloc_c a (fi_alloc_size total_blocks)) (\<lambda>fi.
        if fi = NULL then fail Null_Deref
        else bnd (fill_iovecs a [0..total_blocks - 1] total_blocks initial_block_size last_block_size)
          (\<lambda>(vs, ok).
            if \<not> ok then ret (-1)
            else andthen (modify (\<lambda>s. s\<lparr>fi_heap := (fi_heap s)(fi \<mapsto>
                \<lparr>fi_opcode = IORING_OP_READV, fi_file_sz = file_sz, fi_file_fd = file_fd, fi_iovecs = vs\<rparr>)\<rparr>))
             (andthen (queue_sqe u (\<lambda>q. u_set_data u (u_prep u (Op_readv file_fd fi (nat total_blocks) 0) q) fi))
               (ret 0)))))"

definition push_write_request :: "alloc \<Rightarrow> uring \<Rightarrow> int \<Rightarrow> ptr \<Rightarrow> int \<Rightarrow> (files, int) comp" where
  "push_write_request a u file_fd data file_sz =
     bnd (malloc_c a (fi_alloc_size 1)) (\<lambda>fi.
       if fi = NULL then fail Null_Deref
       else andthen (modify (\<lambda>s. s\<lparr>fi_heap := (fi_heap s)(fi \<mapsto>
           \<lparr>fi_opcode = IORING_OP_WRITEV, fi_file_sz = file_sz, fi_file_fd = file_fd,
            fi_iovecs = [\<lparr>iov_base = data, iov_len = to_size file_sz\<rparr>]\<rparr>)\<rparr>))
        (andthen (queue_sqe u (\<lambda>q. u_set_data u (u_prep u (Op_writev file_fd fi 1 0) q) fi))
          (ret 0)))"

text \<open>\<^verbatim>\<open>io_uring_cqe_get_data\<close> and the access to the object it points to.\<close>

definition get_data :: "cqe \<Rightarrow> (files, ptr \<times> file_info) comp" where
  "get_data cqe = (case cq_user_data cqe of
      Raw _ \<Rightarrow> fail Wild_Write
    | Ref p \<Rightarrow> bnd get_state (\<lambda>s. case fi_heap s p of
        None \<Rightarrow> fail Use_After_Free
      | Some fi \<Rightarrow> ret (p, fi)))"

definition pop_request :: "uring \<Rightarrow> (files, int) comp" where
  "pop_request u =
     bnd (io_uring_peek_cqe u) (\<lambda>(r, c).
       if r < 0 then ret r
       else bnd (deref_cqe c) (\<lambda>cqe.
         if cq_res cqe < 0 then ret (cq_res cqe)
         else bnd (get_data cqe) (\<lambda>(p, fi).
           andthen
             (if fi_opcode fi = IORING_OP_READV then
                (let total_blocks = pop_blocks (fi_file_sz fi) in
                 andthen (emit (Ev_read_callback (take (nat total_blocks) (fi_iovecs fi)) (fi_file_fd fi)))
                   (for_list (\<lambda>i. bnd (read_arr (fi_iovecs fi) i) (\<lambda>v. free_c (iov_base v)))
                     [0..total_blocks - 1]))
              else if fi_opcode fi = IORING_OP_WRITEV then emit (Ev_write_callback (cq_res cqe) (fi_file_fd fi))
              else ret ())
          (andthen (free_c p)
          (andthen (modify (\<lambda>s. s\<lparr>fi_heap := (fi_heap s)(p := None)\<rparr>))
          (andthen io_uring_cqe_seen (ret 0)))))))"

definition queue_submit :: "uring \<Rightarrow> int \<Rightarrow> (files, int) comp" where
  "queue_submit u num = io_uring_submit_and_wait u num"

definition queue_init :: "uring \<Rightarrow> (files, int) comp" where
  "queue_init u = queue_init_c u QUEUE_DEPTH 0"

definition queue_exit :: "(files, unit) comp" where
  "queue_exit = emit Ev_queue_exit"

section \<open>The plan of the blocks\<close>

lemma pop_blocks_push: "pop_blocks sz = fst (push_blocks sz)"
  by (simp add: pop_blocks_def push_blocks_def Let_def)

text \<open>The sizes of the blocks of a plan, in order.\<close>

definition plan :: "int \<Rightarrow> int list" where
  "plan sz = (let (n, b, l) = push_blocks sz in map (\<lambda>i. if i = n - 1 then l else b) [0..n - 1])"

lemma sdiv_nonneg: "0 \<le> (a :: int) \<Longrightarrow> 0 < b \<Longrightarrow> a sdiv b = a div b"
  by (cases "a = 0") (simp_all add: signed_divide_int_def)

lemma upto_7: "[0..6::int] = [0,1,2,3,4,5,6]" "[0..7::int] = [0,1,2,3,4,5,6,7]"
  by (simp_all add: upto_rec1)

lemma plan_cases:
  assumes "0 \<le> sz"
  shows "plan sz = (if sz div 7 = 0 then [] else replicate 7 (sz div 7)) @ (if sz mod 7 = 0 then [] else [sz mod 7])"
proof -
  have "sz mod 7 = sz - sz div 7 * 7"
    by (simp add: minus_div_mult_eq_mod)
  moreover have "0 \<le> sz mod 7" by simp
  ultimately show ?thesis
    using assms by (auto simp: plan_def push_blocks_def INITIAL_NUM_BLOCKS_def sdiv_nonneg Let_def upto_7
        eval_nat_numeral)
qed

lemma plan_sum: "0 \<le> sz \<Longrightarrow> sum_list (plan sz) = sz"
  using mult_div_mod_eq [of 7 sz] by (auto simp: plan_cases sum_list_replicate)

lemma plan_pos: "0 \<le> sz \<Longrightarrow> list_all (\<lambda>n. 0 < n) (plan sz)"
  using pos_imp_zdiv_nonneg_iff [of 7 sz] pos_mod_sign [of 7 sz]
  by (auto simp: plan_cases list_all_iff simp del: pos_mod_sign)

lemma plan_length: "int (length (plan sz)) = pop_blocks sz"
  by (auto simp: plan_def pop_blocks_def push_blocks_def INITIAL_NUM_BLOCKS_def Let_def)

section \<open>Allocation and requests along the log\<close>

definition alloc_wf :: "event list \<Rightarrow> bool" where
  "alloc_wf h \<longleftrightarrow> (\<forall>p \<in> allocated h. \<exists>i. p = Obj ''heap'' i \<and> i < int (length (filter is_malloc h)))"

lemma allocated_append [simp]: "allocated (g @ h) = foldl alloc_step (allocated g) h"
  by (simp add: allocated_def)

lemma alloc_wf_null: "alloc_wf h \<Longrightarrow> NULL \<notin> allocated h"
  by (auto simp: alloc_wf_def)

lemma new_block_fresh: "alloc_wf h \<Longrightarrow> new_block h \<notin> allocated h" and new_block_not_null [simp]: "new_block h \<noteq> NULL"
  by (auto simp: alloc_wf_def new_block_def)

lemma alloc_wf_malloc:
  assumes "alloc_wf h"
  shows "alloc_wf (h @ [Ev_malloc (new_block h) n])" "alloc_wf (h @ [Ev_malloc NULL n])"
  using assms by (auto simp: alloc_wf_def alloc_step_def new_block_def dest!: bspec)

lemma alloc_wf_less: "alloc_wf h \<Longrightarrow> foldl alloc_step (allocated h) es \<subseteq> allocated h \<Longrightarrow> alloc_wf (h @ es)"
  by (auto simp: alloc_wf_def dest!: subsetD bspec)

text \<open>
  Requests not retired: a request is retired when its completion, the one last peeked, is
  marked as seen.
\<close>

definition req_step :: "udata multiset \<times> udata option \<Rightarrow> event \<Rightarrow> udata multiset \<times> udata option" where
  "req_step R e = (case e of
      Ev_sqe q \<Rightarrow> (add_mset (sq_user_data q) (fst R), snd R)
    | Ev_cqe c \<Rightarrow> (fst R, Some (cq_user_data c))
    | Ev_cqe_seen \<Rightarrow> (case snd R of None \<Rightarrow> R | Some d \<Rightarrow> (fst R - {#d#}, None))
    | _ \<Rightarrow> R)"

definition reqs :: "event list \<Rightarrow> udata multiset \<times> udata option" where
  "reqs h = foldl req_step ({#}, None) h"

definition open_reqs :: "event list \<Rightarrow> udata multiset" where
  "open_reqs h = fst (reqs h)"

lemma reqs_append [simp]: "reqs (g @ h) = foldl req_step (reqs g) h"
  by (simp add: reqs_def)

text \<open>The contract of the ring: a peek that succeeds shows the completion of a request not retired.\<close>

definition peek_ok :: "uring \<Rightarrow> bool" where
  "peek_ok u \<longleftrightarrow> (\<forall>h. case u_peek_cqe u h of (r, c) \<Rightarrow>
     0 \<le> r \<longrightarrow> (case c of None \<Rightarrow> False | Some q \<Rightarrow> cq_user_data q \<in># open_reqs h))"

section \<open>The invariant\<close>

definition owned :: "ptr \<Rightarrow> file_info \<Rightarrow> ptr list" where
  "owned p fi = p # (if fi_opcode fi = IORING_OP_READV then map iov_base (fi_iovecs fi) else [])"

definition fi_ok :: "file_info \<Rightarrow> bool" where
  "fi_ok fi \<longleftrightarrow> (fi_opcode fi = IORING_OP_READV \<longrightarrow> map iov_len (fi_iovecs fi) = map to_size (plan (fi_file_sz fi)))"

definition fs_inv :: "files \<Rightarrow> bool" where
  "fs_inv s \<longleftrightarrow> alloc_wf (log s) \<and> finite (dom (fi_heap s)) \<and>
     open_reqs (log s) = image_mset Ref (mset_set (dom (fi_heap s))) \<and>
     (\<forall>p fi. fi_heap s p = Some fi \<longrightarrow>
        fi_ok fi \<and> distinct (owned p fi) \<and> set (owned p fi) \<subseteq> allocated (log s)) \<and>
     (\<forall>p q fi gi. fi_heap s p = Some fi \<and> fi_heap s q = Some gi \<and> p \<noteq> q \<longrightarrow>
        set (owned p fi) \<inter> set (owned q gi) = {})"

text \<open>Everything allocated belongs to a request that is not retired.\<close>

definition no_leak :: "files \<Rightarrow> bool" where
  "no_leak s \<longleftrightarrow> allocated (log s) = (\<Union>(p, fi) \<in> {(p, fi). fi_heap s p = Some fi}. set (owned p fi))"

lemma fs_invD:
  assumes "fs_inv s"
  shows "alloc_wf (log s)" "finite (dom (fi_heap s))"
    "open_reqs (log s) = image_mset Ref (mset_set (dom (fi_heap s)))"
    "fi_heap s p = Some fi \<Longrightarrow> fi_ok fi" "fi_heap s p = Some fi \<Longrightarrow> distinct (owned p fi)"
    "fi_heap s p = Some fi \<Longrightarrow> set (owned p fi) \<subseteq> allocated (log s)"
    "fi_heap s p = Some fi \<Longrightarrow> fi_heap s q = Some gi \<Longrightarrow> p \<noteq> q \<Longrightarrow> set (owned p fi) \<inter> set (owned q gi) = {}"
  using assms unfolding fs_inv_def by blast+

lemma fs_inv_add:
  assumes inv: "fs_inv s" and wf: "alloc_wf (log t)" and h: "fi_heap t = (fi_heap s)(p \<mapsto> fi)"
    and r: "open_reqs (log t) = add_mset (Ref p) (open_reqs (log s))"
    and ok: "fi_ok fi" "distinct (owned p fi)" and fresh: "set (owned p fi) \<inter> allocated (log s) = {}"
    and b: "allocated (log t) = allocated (log s) \<union> set (owned p fi)"
  shows "fs_inv t" and "no_leak s \<Longrightarrow> no_leak t"
proof -
  have new: "fi_heap s p = None"
    using fs_invD(6) [OF inv, of p] fresh by (cases "fi_heap s p") (auto simp: owned_def)
  have old: "set (owned q gi) \<subseteq> allocated (log s)" if "fi_heap s q = Some gi" for q gi
    using fs_invD(6) [OF inv that] .
  have "open_reqs (log t) = image_mset Ref (mset_set (dom (fi_heap t)))"
    using new fs_invD(2,3) [OF inv] r h by (simp add: domIff)
  moreover have "fi_ok gi \<and> distinct (owned q gi) \<and> set (owned q gi) \<subseteq> allocated (log t)"
    if "fi_heap t q = Some gi" for q gi
    using that h ok b old fs_invD(4,5) [OF inv, of q gi] by (cases "q = p") auto
  moreover have "set (owned q gi) \<inter> set (owned q' gi') = {}"
    if "fi_heap t q = Some gi" "fi_heap t q' = Some gi'" "q \<noteq> q'" for q gi q' gi'
    using that h fresh old [of q gi] old [of q' gi'] fs_invD(7) [OF inv, of q gi q' gi']
    by (cases "q = p"; cases "q' = p") auto
  moreover have "finite (dom (fi_heap t))"
    using h fs_invD(2) [OF inv] by simp
  ultimately show "fs_inv t"
    using wf unfolding fs_inv_def by blast
  have "{(q, gi). fi_heap t q = Some gi} = insert (p, fi) {(q, gi). fi_heap s q = Some gi}"
    using new h by (auto split: if_splits)
  then show "no_leak t" if "no_leak s"
    using that b by (auto simp: no_leak_def)
qed

lemma fs_inv_remove:
  assumes inv: "fs_inv s" and p: "fi_heap s p = Some fi" and wf: "alloc_wf (log t)"
    and h: "fi_heap t = (fi_heap s)(p := None)"
    and r: "open_reqs (log t) = open_reqs (log s) - {#Ref p#}"
    and b: "allocated (log t) = allocated (log s) - set (owned p fi)"
  shows "fs_inv t" and "no_leak s \<Longrightarrow> no_leak t"
proof -
  have d: "mset_set (dom (fi_heap s)) = add_mset p (mset_set (dom (fi_heap s) - {p}))"
    using fs_invD(2) [OF inv] p by (simp add: domI mset_set.remove)
  have sep: "x \<notin> set (owned p fi)" if "fi_heap t q = Some gi" "x \<in> set (owned q gi)" for q gi x
    using that h fs_invD(7) [OF inv _ p, of q gi] by (auto split: if_splits)
  have old: "fi_heap s q = Some gi" if "fi_heap t q = Some gi" for q gi
    using that h by (auto split: if_splits)
  have "open_reqs (log t) = image_mset Ref (mset_set (dom (fi_heap t)))"
    using d fs_invD(3) [OF inv] r h by simp
  moreover have "fi_ok gi \<and> distinct (owned q gi) \<and> set (owned q gi) \<subseteq> allocated (log t)"
    if "fi_heap t q = Some gi" for q gi
    using fs_invD(4-6) [OF inv old [OF that]] sep [OF that] b by auto
  moreover have "set (owned q gi) \<inter> set (owned q' gi') = {}"
    if "fi_heap t q = Some gi" "fi_heap t q' = Some gi'" "q \<noteq> q'" for q gi q' gi'
    using fs_invD(7) [OF inv old [OF that(1)] old [OF that(2)] that(3)] .
  moreover have "finite (dom (fi_heap t))"
    using h fs_invD(2) [OF inv] by simp
  ultimately show "fs_inv t"
    using wf unfolding fs_inv_def by blast
  have "{(q, gi). fi_heap s q = Some gi} = insert (p, fi) {(q, gi). fi_heap t q = Some gi}"
    using p h by (auto split: if_splits)
  then show "no_leak t" if "no_leak s"
    using that b by (auto simp: no_leak_def dest: sep)
qed

lemma fs_inv_more:
  assumes "fs_inv s" "alloc_wf (log t)" "fi_heap t = fi_heap s" "open_reqs (log t) = open_reqs (log s)"
    and "allocated (log s) \<subseteq> allocated (log t)"
  shows "fs_inv t" and "no_leak s \<Longrightarrow> allocated (log t) = allocated (log s) \<Longrightarrow> no_leak t"
proof -
  have "set (owned p fi) \<subseteq> allocated (log t)" if "fi_heap s p = Some fi" for p fi
    using fs_invD(6) [OF assms(1) that] assms(5) by blast
  then show "fs_inv t"
    using assms(1,2) unfolding fs_inv_def assms(3,4) by simp
qed (simp add: no_leak_def assms(3))

section \<open>The operations keep the invariant\<close>

text \<open>
  No operation leaves the process, and undefined behaviour other than through a null
  pointer (no memory, no room in the ring) is excluded.
\<close>

definition mem_safe :: "('a \<Rightarrow> files \<Rightarrow> bool) \<Rightarrow> 'a outcome \<Rightarrow> files \<Rightarrow> bool" where
  "mem_safe P r t = (case r of Ok a \<Rightarrow> P a t | Exit c \<Rightarrow> False | Fault f \<Rightarrow> f = Null_Deref)"

lemma mem_safe_simps [simp]:
  "mem_safe P (Ok a) = P a" "\<not> mem_safe P (Exit c) s" "mem_safe P (Fault f) s \<longleftrightarrow> f = Null_Deref"
  by (simp_all add: mem_safe_def fun_eq_iff)

lemma after_mem_safe [simp]: "after K (mem_safe P) = mem_safe K"
  by (intro ext) (simp add: after_def mem_safe_def split: outcome.split)

lemma mem_safe_mono: "mem_safe P r t \<Longrightarrow> (\<And>a. P a t \<Longrightarrow> R a t) \<Longrightarrow> mem_safe R r t"
  by (simp add: mem_safe_def split: outcome.splits)

lemma wp_bnd_mem:
  "wp m (mem_safe P) s \<Longrightarrow> (\<And>a t. P a t \<Longrightarrow> wp (f a) (mem_safe R) t) \<Longrightarrow> wp (bnd m f) (mem_safe R) s"
  by (simp add: wp_bnd) (erule wp_mono, auto elim: mem_safe_mono)

definition never_fails :: "alloc \<Rightarrow> bool" where
  "never_fails a \<longleftrightarrow> (\<forall>h n. a_malloc a h n)"

definition keeps_files :: "alloc \<Rightarrow> (files, 'a) comp \<Rightarrow> bool" where
  "keeps_files a m \<longleftrightarrow> (\<forall>s. fs_inv s \<longrightarrow>
     wp m (mem_safe (\<lambda>_ t. fs_inv t \<and> (never_fails a \<and> no_leak s \<longrightarrow> no_leak t))) s)"

definition filled :: "alloc \<Rightarrow> nat list \<Rightarrow> files \<Rightarrow> (iovec list \<times> bool) \<Rightarrow> files \<Rightarrow> bool" where
  "filled a ls s = (\<lambda>(vs, ok) t. fi_heap t = fi_heap s \<and> alloc_wf (log t) \<and> reqs (log t) = reqs (log s) \<and>
     allocated (log s) \<subseteq> allocated (log t) \<and> (never_fails a \<longrightarrow> ok) \<and>
     (ok \<longrightarrow> allocated (log t) = allocated (log s) \<union> set (map iov_base vs) \<and> distinct (map iov_base vs) \<and>
        set (map iov_base vs) \<inter> allocated (log s) = {} \<and> map iov_len vs = ls))"

lemma fill_iovecs_wp:
  assumes "alloc_wf (log s)"
  shows "wp (fill_iovecs a is n b l)
    (mem_safe (filled a (map (\<lambda>i. to_size (if i = n - 1 then l else b)) is) s)) s"
  using assms
proof (induction "is" arbitrary: s)
  case Nil
  then show ?case by (simp add: wp_simps filled_def)
next
  case (Cons i "is")
  let ?m = "to_size (if i = n - 1 then l else b)" and ?p = "new_block (log s)"
  let ?t = "s\<lparr>log := log s @ [Ev_malloc ?p ?m]\<rparr>"
  have wf: "alloc_wf (log ?t)" "alloc_wf (log s @ [Ev_malloc NULL ?m])"
    using alloc_wf_malloc [OF Cons.prems, of ?m] by simp_all
  have "wp (fill_iovecs a is n b l)
      (mem_safe (\<lambda>r t. filled a (map (\<lambda>i. to_size (if i = n - 1 then l else b)) (i # is)) s
        (\<lparr>iov_base = ?p, iov_len = ?m\<rparr> # fst r, snd r) t)) ?t"
    using Cons.IH [OF wf(1)]
    by (rule wp_mono) (use new_block_fresh [OF Cons.prems] in
      \<open>auto simp: mem_safe_def filled_def alloc_step_def req_step_def split: outcome.splits\<close>)
  then have "wp (bnd (fill_iovecs a is n b l) (\<lambda>(vs, ok). ret (\<lparr>iov_base = ?p, iov_len = ?m\<rparr> # vs, ok)))
      (mem_safe (filled a (map (\<lambda>i. to_size (if i = n - 1 then l else b)) (i # is)) s)) ?t"
    by (simp add: wp_bnd case_prod_beta wp_ret)
  then show ?case
    using wf(2) by (auto simp: wp_simps malloc_c_def Let_def filled_def alloc_step_def req_step_def
        never_fails_def)
qed

lemma wp_bnd_malloc:
  "wp (bnd (malloc_c a m) f) Q s =
    (if a_malloc a (log s) m then wp (f (new_block (log s))) Q (s\<lparr>log := log s @ [Ev_malloc (new_block (log s)) m]\<rparr>)
     else wp (f NULL) Q (s\<lparr>log := log s @ [Ev_malloc NULL m]\<rparr>))"
  by (simp add: malloc_c_def wp_simps)

lemma queue_ref:
  assumes "sqe_helpers u"
  shows "wp (queue_sqe u (\<lambda>q. u_set_data u (u_prep u op q) p)) (mem_safe (\<lambda>_ t. fi_heap t = fi_heap s \<and>
    alloc_wf (log t) = alloc_wf (log s) \<and> allocated (log t) = allocated (log s) \<and>
    open_reqs (log t) = add_mset (Ref p) (open_reqs (log s)))) s"
  using sqe_helpersD [OF assms]
  by (auto simp: wp_simps alloc_step_def open_reqs_def req_step_def alloc_wf_def split: option.split)

text \<open>A request object with its blocks, allocated since \<open>s\<close>, enters the heap and the ring.\<close>

lemma push_request:
  assumes u: "sqe_helpers u" and inv: "fs_inv s" and h: "fi_heap t = fi_heap s" and wf: "alloc_wf (log t)"
    and r: "open_reqs (log t) = open_reqs (log s)" and fi: "fi_ok fi" "distinct (owned p fi)"
    and fresh: "set (owned p fi) \<inter> allocated (log s) = {}"
    and b: "allocated (log t) = allocated (log s) \<union> set (owned p fi)"
  shows "wp (andthen (modify (\<lambda>s. s\<lparr>fi_heap := (fi_heap s)(p \<mapsto> fi)\<rparr>))
      (andthen (queue_sqe u (\<lambda>q. u_set_data u (u_prep u op q) p)) (ret x)))
    (mem_safe (\<lambda>_ t. fs_inv t \<and> (never_fails a \<and> no_leak s \<longrightarrow> no_leak t))) t"
proof -
  let ?t = "t\<lparr>fi_heap := (fi_heap t)(p \<mapsto> fi)\<rparr>"
  have "wp (queue_sqe u (\<lambda>q. u_set_data u (u_prep u op q) p))
      (mem_safe (\<lambda>_ t. fs_inv t \<and> (never_fails a \<and> no_leak s \<longrightarrow> no_leak t))) ?t"
    using queue_ref [OF u]
  proof (rule wp_mono, elim mem_safe_mono conjE)
    fix t' :: files
    assume "fi_heap t' = fi_heap ?t" "alloc_wf (log t') = alloc_wf (log ?t)"
      "allocated (log t') = allocated (log ?t)" "open_reqs (log t') = add_mset (Ref p) (open_reqs (log ?t))"
    then show "fs_inv t' \<and> (never_fails a \<and> no_leak s \<longrightarrow> no_leak t')"
      using fs_inv_add [OF inv, of t' p fi] h wf r fi fresh b by simp
  qed
  then show ?thesis by (simp add: wp_simps)
qed

lemma keeps_push_read:
  assumes "sqe_helpers u"
  shows "keeps_files a (push_read_request a u fd sz)"
  unfolding keeps_files_def
proof (intro allI impI)
  fix s
  assume inv: "fs_inv s"
  obtain n b l where nbl: "push_blocks sz = (n, b, l)"
    by (cases "push_blocks sz")
  let ?p = "new_block (log s)" and ?P = "mem_safe (\<lambda>_ t. fs_inv t \<and> (never_fails a \<and> no_leak s \<longrightarrow> no_leak t))"
  let ?s = "s\<lparr>log := log s @ [Ev_malloc ?p (fi_alloc_size n)]\<rparr>"
  let ?fi = "\<lambda>vs. \<lparr>fi_opcode = IORING_OP_READV, fi_file_sz = sz, fi_file_fd = fd, fi_iovecs = vs\<rparr>"
  have wf: "alloc_wf (log ?s)" and fresh: "?p \<notin> allocated (log s)"
    using alloc_wf_malloc(1) new_block_fresh fs_invD(1) [OF inv] by simp_all
  have "wp (bnd (fill_iovecs a [0..n - 1] n b l) (\<lambda>(vs, ok). if \<not> ok then ret (-1 :: int)
      else andthen (modify (\<lambda>s. s\<lparr>fi_heap := (fi_heap s)(?p \<mapsto> ?fi vs)\<rparr>))
        (andthen (queue_sqe u (\<lambda>q. u_set_data u (u_prep u (Op_readv fd ?p (nat n) 0) q) ?p)) (ret 0)))) ?P ?s"
  proof (rule wp_bnd_mem [OF fill_iovecs_wp [OF wf]], clarify)
    fix vs ok t
    assume "filled a (map (\<lambda>i. to_size (if i = n - 1 then l else b)) [0..n - 1]) ?s (vs, ok) t"
    then have f: "filled a (map to_size (plan sz)) ?s (vs, ok) t"
      by (simp add: plan_def nbl comp_def)
    show "wp (if \<not> ok then ret (-1 :: int) else andthen (modify (\<lambda>s. s\<lparr>fi_heap := (fi_heap s)(?p \<mapsto> ?fi vs)\<rparr>))
        (andthen (queue_sqe u (\<lambda>q. u_set_data u (u_prep u (Op_readv fd ?p (nat n) 0) q) ?p)) (ret 0))) ?P t"
    proof (cases ok)
      case True
      then show ?thesis
        using f fresh by (simp, intro push_request assms inv)
          (auto simp: filled_def fi_ok_def owned_def open_reqs_def alloc_step_def req_step_def)
    next
      case False
      then show ?thesis
        using f fs_inv_more(1) [OF inv, of t]
        by (auto simp: wp_ret filled_def open_reqs_def alloc_step_def req_step_def)
    qed
  qed
  then show "wp (push_read_request a u fd sz) ?P s"
    by (simp add: push_read_request_def nbl wp_bnd_malloc wp_fail)
qed

lemma keeps_push_write:
  assumes "sqe_helpers u"
  shows "keeps_files a (push_write_request a u fd data sz)"
  unfolding keeps_files_def
proof (intro allI impI)
  fix s
  assume inv: "fs_inv s"
  let ?p = "new_block (log s)"
  let ?t = "s\<lparr>log := log s @ [Ev_malloc ?p (fi_alloc_size 1)]\<rparr>"
  have wf: "alloc_wf (log ?t)" and fresh: "?p \<notin> allocated (log s)"
    using alloc_wf_malloc(1) new_block_fresh fs_invD(1) [OF inv] by simp_all
  have "wp (andthen (modify (\<lambda>s. s\<lparr>fi_heap := (fi_heap s)(?p \<mapsto>
      \<lparr>fi_opcode = IORING_OP_WRITEV, fi_file_sz = sz, fi_file_fd = fd,
       fi_iovecs = [\<lparr>iov_base = data, iov_len = to_size sz\<rparr>]\<rparr>)\<rparr>))
      (andthen (queue_sqe u (\<lambda>q. u_set_data u (u_prep u (Op_writev fd ?p 1 0) q) ?p)) (ret (0 :: int))))
    (mem_safe (\<lambda>_ t. fs_inv t \<and> (never_fails a \<and> no_leak s \<longrightarrow> no_leak t))) ?t"
    by (rule push_request [OF assms inv]) (use wf fresh in \<open>auto simp: fi_ok_def owned_def open_reqs_def
        alloc_step_def req_step_def IORING_OP_READV_def IORING_OP_WRITEV_def\<close>)
  then show "wp (push_write_request a u fd data sz)
      (mem_safe (\<lambda>_ t. fs_inv t \<and> (never_fails a \<and> no_leak s \<longrightarrow> no_leak t))) s"
    by (simp add: push_write_request_def wp_bnd_malloc wp_fail)
qed

lemma wp_free:
  "p \<noteq> NULL \<Longrightarrow> p \<in> allocated (log s) \<Longrightarrow> wp (free_c p) Q s = Q (Ok ()) (s\<lparr>log := log s @ [Ev_free p]\<rparr>)"
  by (simp add: free_c_def wp_simps)

lemma wp_free_blocks:
  assumes "distinct (map iov_base vs)" "set (map iov_base vs) \<subseteq> allocated (log s)" "NULL \<notin> allocated (log s)"
  shows "wp (for_list (\<lambda>v. free_c (iov_base v)) vs) Q s =
    Q (Ok ()) (s\<lparr>log := log s @ map (Ev_free \<circ> iov_base) vs\<rparr>)"
  using assms
proof (induction vs arbitrary: s)
  case Nil
  then show ?case by (simp add: wp_simps)
next
  case (Cons v vs)
  have "iov_base v \<noteq> NULL" "iov_base v \<in> allocated (log s)"
    using Cons.prems by auto
  moreover have "wp (for_list (\<lambda>v. free_c (iov_base v)) vs) Q (s\<lparr>log := log s @ [Ev_free (iov_base v)]\<rparr>) =
      Q (Ok ()) (s\<lparr>log := log s @ [Ev_free (iov_base v)] @ map (Ev_free \<circ> iov_base) vs\<rparr>)"
    using Cons.prems by (subst Cons.IH) (auto simp: alloc_step_def image_iff)
  ultimately show ?case by (simp add: wp_bnd wp_free comp_def)
qed

lemma frees_alloc: "foldl alloc_step B (map (Ev_free \<circ> f) vs) = B - f ` set vs"
  by (induction vs arbitrary: B) (auto simp: alloc_step_def)

lemma frees_reqs: "foldl req_step R (map (Ev_free \<circ> f) vs) = R"
  by (induction vs arbitrary: R) (auto simp: req_step_def)

text \<open>What \<^verbatim>\<open>pop_request\<close> does with the completion of the request \<open>p\<close>.\<close>

definition pop_log :: "cqe \<Rightarrow> ptr \<Rightarrow> file_info \<Rightarrow> event list" where
  "pop_log c p fi =
     (if fi_opcode fi = IORING_OP_READV
      then Ev_read_callback (fi_iovecs fi) (fi_file_fd fi) # map (Ev_free \<circ> iov_base) (fi_iovecs fi)
      else if fi_opcode fi = IORING_OP_WRITEV then [Ev_write_callback (cq_res c) (fi_file_fd fi)] else []) @
     [Ev_free p, Ev_cqe_seen]"

lemma pop_log_effect:
  "foldl alloc_step B (pop_log c p fi) = B - set (owned p fi)"
  "foldl req_step (R, Some d) (pop_log c p fi) = (R - {#d#}, None)"
  by (auto simp: pop_log_def owned_def alloc_step_def req_step_def frees_alloc frees_reqs)

lemma fi_ok_length:
  "fi_ok fi \<Longrightarrow> fi_opcode fi = IORING_OP_READV \<Longrightarrow> pop_blocks (fi_file_sz fi) = int (length (fi_iovecs fi))"
  by (metis fi_ok_def length_map plan_length)

lemma wp_pop_done:
  assumes inv: "fs_inv s" and peek: "u_peek_cqe u (log s) = (r, Some c)" "0 \<le> r" and res: "0 \<le> cq_res c"
    and p: "cq_user_data c = Ref p" "fi_heap s p = Some fi"
  shows "wp (pop_request u) Q s =
    Q (Ok 0) (s\<lparr>fi_heap := (fi_heap s)(p := None), log := log s @ Ev_peek r # Ev_cqe c # pop_log c p fi\<rparr>)"
proof -
  let ?s = "s\<lparr>log := log s @ [Ev_peek r, Ev_cqe c]\<rparr>"
  note d = fs_invD(5,6) [OF inv p(2)] alloc_wf_null [OF fs_invD(1) [OF inv]]
  have pn: "p \<noteq> NULL"
    using d by (auto simp: owned_def)
  have f: "wp (for_list (\<lambda>v. free_c (iov_base v)) (fi_iovecs fi)) Q' (s'\<lparr>log := log s @ es\<rparr>) =
      Q' (Ok ()) (s'\<lparr>log := log s @ es @ map (Ev_free \<circ> iov_base) (fi_iovecs fi)\<rparr>)"
    if "fi_opcode fi = IORING_OP_READV" "foldl alloc_step (allocated (log s)) es = allocated (log s)" for Q' s' es
    using that d by (subst wp_free_blocks) (auto simp: owned_def)
  show ?thesis
  proof (cases "fi_opcode fi = IORING_OP_READV")
    case True
    then have "pop_blocks (fi_file_sz fi) = int (length (fi_iovecs fi))"
      using fi_ok_length fs_invD(4) [OF inv p(2)] by blast
    with True show ?thesis
      using peek res p d pn by (simp add: pop_request_def io_uring_peek_cqe_def see_cqe_def wp_simps get_data_def
          Let_def for_index f alloc_step_def wp_free owned_def frees_alloc io_uring_cqe_seen_def pop_log_def)
  next
    case False
    with peek res p d pn show ?thesis
      by (simp add: pop_request_def io_uring_peek_cqe_def see_cqe_def wp_simps get_data_def alloc_step_def
          wp_free owned_def io_uring_cqe_seen_def pop_log_def)
  qed
qed

lemma keeps_pop:
  assumes "peek_ok u"
  shows "keeps_files a (pop_request u)"
  unfolding keeps_files_def
proof (intro allI impI)
  fix s
  assume inv: "fs_inv s"
  obtain r c where peek: "u_peek_cqe u (log s) = (r, c)"
    by (cases "u_peek_cqe u (log s)")
  let ?P = "mem_safe (\<lambda>_ t. fs_inv t \<and> (never_fails a \<and> no_leak s \<longrightarrow> no_leak t))"
  have same: "fs_inv t \<and> (never_fails a \<and> no_leak s \<longrightarrow> no_leak t)"
    if "log t = log s @ es" "fi_heap t = fi_heap s" "foldl alloc_step (allocated (log s)) es = allocated (log s)"
      "fst (foldl req_step (reqs (log s)) es) = fst (reqs (log s))" for t es
    using fs_inv_more [OF inv, of t] alloc_wf_less [OF fs_invD(1) [OF inv], of es] that
    by (simp add: open_reqs_def)
  show "wp (pop_request u) ?P s"
  proof (cases "0 \<le> r")
    case True
    then obtain q where q: "c = Some q" "cq_user_data q \<in># open_reqs (log s)"
      using assms peek unfolding peek_ok_def by (metis (no_types, lifting) case_prod_conv option.case_eq_if option.collapse)
    then obtain p fi where p: "cq_user_data q = Ref p" "fi_heap s p = Some fi"
      using fs_invD(2,3) [OF inv] by auto
    show ?thesis
    proof (cases "0 \<le> cq_res q")
      case True
      let ?t = "s\<lparr>fi_heap := (fi_heap s)(p := None), log := log s @ Ev_peek r # Ev_cqe q # pop_log q p fi\<rparr>"
      have alloc: "allocated (log ?t) = allocated (log s) - set (owned p fi)"
        by (simp add: alloc_step_def pop_log_effect)
      then have "alloc_wf (log ?t)"
        using alloc_wf_less [OF fs_invD(1) [OF inv], of "Ev_peek r # Ev_cqe q # pop_log q p fi"] by simp
      moreover have "open_reqs (log ?t) = open_reqs (log s) - {#Ref p#}"
        using p by (simp add: open_reqs_def req_step_def pop_log_effect)
      ultimately have "fs_inv ?t \<and> (no_leak s \<longrightarrow> no_leak ?t)"
        using fs_inv_remove [OF inv p(2), of ?t] alloc by simp
      then show ?thesis
        using wp_pop_done [OF inv _ \<open>0 \<le> r\<close> True p] peek q by simp
    next
      case False
      then show ?thesis
        using peek q \<open>0 \<le> r\<close> same [of _ "[Ev_peek r, Ev_cqe q]"]
        by (simp add: pop_request_def io_uring_peek_cqe_def see_cqe_def wp_simps alloc_step_def req_step_def)
    qed
  next
    case False
    then show ?thesis
      using peek same [of _ "[Ev_peek r]"] same [of _ "[Ev_peek r, Ev_cqe (the c)]"]
      by (cases c) (simp_all add: pop_request_def io_uring_peek_cqe_def see_cqe_def wp_simps alloc_step_def
          req_step_def)
  qed
qed

lemma keeps_queue_submit: "keeps_files a (queue_submit u n)"
  unfolding keeps_files_def
proof (intro allI impI)
  fix s
  assume inv: "fs_inv s"
  let ?e = "Ev_submit_and_wait n (u_submit_and_wait u (log s) n)"
  show "wp (queue_submit u n) (mem_safe (\<lambda>_ t. fs_inv t \<and> (never_fails a \<and> no_leak s \<longrightarrow> no_leak t))) s"
    using fs_inv_more [OF inv, of "s\<lparr>log := log s @ [?e]\<rparr>"] alloc_wf_less [OF fs_invD(1) [OF inv], of "[?e]"]
    by (simp add: queue_submit_def io_uring_submit_and_wait_def wp_simps open_reqs_def alloc_step_def req_step_def)
qed

section \<open>Sequences of operations\<close>

text \<open>The calls the Go side makes between \<^verbatim>\<open>queue_init\<close> and \<^verbatim>\<open>queue_exit\<close>.\<close>

datatype fs_op = Push_read int int | Push_write int ptr int | Pop | Submit int

fun fs_exec :: "alloc \<Rightarrow> uring \<Rightarrow> fs_op \<Rightarrow> (files, int) comp" where
  "fs_exec a u (Push_read fd sz) = push_read_request a u fd sz"
| "fs_exec a u (Push_write fd data sz) = push_write_request a u fd data sz"
| "fs_exec a u Pop = pop_request u"
| "fs_exec a u (Submit n) = queue_submit u n"

definition fs_run :: "alloc \<Rightarrow> uring \<Rightarrow> fs_op list \<Rightarrow> (files, unit) comp" where
  "fs_run a u ops = for_list (\<lambda>op. andthen (fs_exec a u op) (ret ())) ops"

lemma fs_run_append: "fs_run a u (xs @ ys) = bnd (fs_run a u xs) (\<lambda>_. fs_run a u ys)"
  by (simp add: fs_run_def for_list_append)

text \<open>
  The interface of the operations: each keeps the invariant and leaks nothing. A client may
  then call them in any order.
\<close>

locale file_ops =
  fixes a :: alloc and ok :: bool and exec :: "'o \<Rightarrow> (files, int) comp"
  assumes keeps_op: "ok \<Longrightarrow> keeps_files a (exec op)"
begin

lemma sequence:
  assumes "ok" "fs_inv s"
  shows "wp (for_list (\<lambda>op. andthen (exec op) (ret ())) ops)
    (mem_safe (\<lambda>_ t. fs_inv t \<and> (never_fails a \<and> no_leak s \<longrightarrow> no_leak t))) s"
proof (rule wp_for_list [where I = "\<lambda>t. fs_inv t \<and> (never_fails a \<and> no_leak s \<longrightarrow> no_leak t)"])
  fix op t
  assume t: "fs_inv t \<and> (never_fails a \<and> no_leak s \<longrightarrow> no_leak t)"
  then have "wp (exec op) (mem_safe (\<lambda>_ t'. fs_inv t' \<and> (never_fails a \<and> no_leak t \<longrightarrow> no_leak t'))) t"
    using keeps_op [OF assms(1)] by (simp add: keeps_files_def)
  then have "wp (exec op) (mem_safe (\<lambda>_ t'. fs_inv t' \<and> (never_fails a \<and> no_leak s \<longrightarrow> no_leak t'))) t"
    using t by (elim wp_mono mem_safe_mono) simp
  then show "wp (andthen (exec op) (ret ()))
      (after (\<lambda>_ t. fs_inv t \<and> (never_fails a \<and> no_leak s \<longrightarrow> no_leak t))
        (mem_safe (\<lambda>_ t. fs_inv t \<and> (never_fails a \<and> no_leak s \<longrightarrow> no_leak t)))) t"
    by (simp add: wp_simps)
qed (use assms in simp_all)

end

interpretation fs: file_ops a "sqe_helpers u \<and> peek_ok u" "fs_exec a u" for a u
proof unfold_locales
  show "keeps_files a (fs_exec a u op)" if "sqe_helpers u \<and> peek_ok u" for op
    using that by (cases op) (simp_all add: keeps_push_read keeps_push_write keeps_pop keeps_queue_submit)
qed

definition fs_start :: files where
  "fs_start = \<lparr>log = [], fi_heap = Map.empty\<rparr>"

lemma fs_start_inv: "fs_inv fs_start" "no_leak fs_start"
  by (simp_all add: fs_start_def fs_inv_def no_leak_def alloc_wf_def allocated_def open_reqs_def reqs_def)

section \<open>Properties\<close>

text \<open>
  C16: for a file of \<open>sz\<close> bytes the blocks that \<^verbatim>\<open>push_read_request\<close> allocates add up to the
  size exactly, none is empty, there are at most eight, and \<^verbatim>\<open>pop_request\<close> computes the same
  number of them again.
\<close>

theorem read_blocks:
  assumes "0 \<le> sz"
  shows "sum_list (plan sz) = sz \<and> list_all (\<lambda>n. 0 < n) (plan sz) \<and> length (plan sz) \<le> 8 \<and>
    int (length (plan sz)) = pop_blocks sz \<and> pop_blocks sz = fst (push_blocks sz)"
  using assms by (simp add: plan_sum plan_pos plan_length pop_blocks_push) (simp add: plan_cases)

text \<open>
  C14: whatever sequence of pushes, submits and pops is made, and whatever sizes and
  allocation failures occur, no block is freed twice or used after it was freed and no
  iovec is read out of bounds: the only undefined behaviour left is a null pointer (no
  memory for the request, no room in the ring). The invariant holds in between.
\<close>

theorem fs_memory_safe:
  assumes "sqe_helpers u" and "peek_ok u" and "fs_run a u ops fs_start = (r, t)"
  shows "case r of Ok _ \<Rightarrow> fs_inv t | Exit _ \<Rightarrow> False | Fault f \<Rightarrow> f = Null_Deref"
proof -
  have "mem_safe (\<lambda>_ t. fs_inv t \<and> (never_fails a \<and> no_leak fs_start \<longrightarrow> no_leak t)) r t"
    using wpD [OF fs.sequence [OF _ fs_start_inv(1)] assms(3) [unfolded fs_run_def]] assms(1,2) by simp
  then show ?thesis
    by (cases r) simp_all
qed


lemma plan_sizes:
  assumes "0 \<le> sz" "sz < 2 ^ 63"
  shows "sum_list (map to_size (plan sz)) = nat sz"
proof -
  have "\<forall>n \<in> set ns. 0 < n \<Longrightarrow> sum_list ns < 2 ^ 63 \<Longrightarrow> sum_list (map to_size ns) = nat (sum_list ns)" for ns
  proof (induction ns)
    case (Cons n ns)
    then have "0 \<le> sum_list ns"
      by (intro sum_list_nonneg) (auto intro: less_imp_le)
    with Cons show ?case
      by (simp add: to_size_def nat_add_distrib)
  qed simp
  then show ?thesis
    using plan_sum plan_pos assms by (simp add: list_all_iff)
qed

text \<open>
  C23: when the completion of a pushed read is at the head of the ring and did not fail,
  \<^verbatim>\<open>pop_request\<close> returns 0, hands the blocks of the file, which hold \<open>sz\<close> bytes together, to
  the callback before it frees each once, frees the request and marks the completion as
  seen.
\<close>

theorem pop_read:
  assumes "fs_inv s" and "u_peek_cqe u (log s) = (r, Some c)" and "0 \<le> r" and "0 \<le> cq_res c"
    and "cq_user_data c = Ref p" and "fi_heap s p = Some fi" and "fi_opcode fi = IORING_OP_READV"
    and "0 \<le> fi_file_sz fi" and "fi_file_sz fi < 2 ^ 63"
  shows "\<exists>t vs. pop_request u s = (Ok 0, t) \<and> fi_heap t = (fi_heap s)(p := None) \<and>
    log t = log s @ [Ev_peek r, Ev_cqe c, Ev_read_callback vs (fi_file_fd fi)] @
      map (Ev_free \<circ> iov_base) vs @ [Ev_free p, Ev_cqe_seen] \<and>
    distinct (map iov_base vs) \<and> sum_list (map iov_len vs) = nat (fi_file_sz fi)"
proof -
  let ?t = "s\<lparr>fi_heap := (fi_heap s)(p := None), log := log s @ Ev_peek r # Ev_cqe c # pop_log c p fi\<rparr>"
  have "pop_request u s = (Ok 0, ?t)"
    using wp_pop_done [OF assms(1-6), of "\<lambda>r t. r = Ok 0 \<and> t = ?t"] by (simp add: wp_def prod_eq_iff)
  moreover have "sum_list (map iov_len (fi_iovecs fi)) = nat (fi_file_sz fi)"
    using fs_invD(4) [OF assms(1,6)] assms(7-9) by (simp add: fi_ok_def plan_sizes)
  moreover have "distinct (map iov_base (fi_iovecs fi))"
    using fs_invD(5) [OF assms(1,6)] assms(7) by (simp add: owned_def)
  ultimately show ?thesis
    using assms(7) by (simp add: pop_log_def)
qed

text \<open>
  C37: a completion that carries an error is returned but not marked as seen, and its request
  and blocks stay allocated: the ring still shows the same completion to the next call.
\<close>

theorem pop_error_keeps_request:
  assumes "u_peek_cqe u (log s) = (r, Some c)" and "0 \<le> r" and "cq_res c < 0"
    and "pop_request u s = (x, t)"
  shows "x = Ok (cq_res c) \<and> fi_heap t = fi_heap s \<and> allocated (log t) = allocated (log s) \<and>
    open_reqs (log t) = open_reqs (log s)"
  using assms by (auto simp: pop_request_def io_uring_peek_cqe_def see_cqe_def deref_cqe_def comp_simps
      alloc_step_def open_reqs_def req_step_def)

section \<open>Witnesses\<close>

text \<open>A ring that completes the first request pushed, with the given result.\<close>

definition ex_file_ring :: "int \<Rightarrow> uring" where
  "ex_file_ring res = (ex_uring [])\<lparr>u_peek_cqe := \<lambda>h.
     if Ref (Obj ''heap'' 0) \<in># open_reqs h
     then (0, Some \<lparr>cq_user_data = Ref (Obj ''heap'' 0), cq_res = res, cq_flags = 0\<rparr>) else (-11, None)\<rparr>"

lemma ex_file_ring_ok [simp]: "sqe_helpers (ex_file_ring res)" "peek_ok (ex_file_ring res)"
  using ex_uring_helpers [of "[]"] by (simp_all add: sqe_helpers_def ex_file_ring_def peek_ok_def)

lemma ex_alloc_never_fails [simp]: "never_fails ex_alloc"
  by (simp add: never_fails_def)

definition ex_fs :: "unit outcome \<times> files" where
  "ex_fs = fs_run ex_alloc (ex_file_ring 10) [Push_read 4 10, Submit 1] fs_start"

definition ex_fs_done :: "unit outcome \<times> files" where
  "ex_fs_done = fs_run ex_alloc (ex_file_ring 10) [Push_read 4 10, Submit 1, Pop] fs_start"

lemma ex_blocks: "push_blocks 10 = (8, 1, 3)"
  by (simp add: push_blocks_def INITIAL_NUM_BLOCKS_def signed_divide_int_def)

lemmas ex_fs_defs = fs_run_def fs_start_def push_read_request_def ex_blocks malloc_c_def upto_7 new_block_def
  queue_submit_def host_defs queue_sqe_def ex_file_ring_def

lemma ex_fs_result:
  "fst ex_fs = Ok ()" "log (snd ex_fs) \<noteq> []"
  "\<exists>fi. fi_heap (snd ex_fs) (Obj ''heap'' 0) = Some fi \<and> fi_opcode fi = IORING_OP_READV \<and> fi_file_sz fi = 10"
  "u_peek_cqe (ex_file_ring res) (log (snd ex_fs)) =
     (0, Some \<lparr>cq_user_data = Ref (Obj ''heap'' 0), cq_res = res, cq_flags = 0\<rparr>)"
  by (simp_all add: ex_fs_def ex_fs_defs comp_simps Let_def open_reqs_def reqs_def req_step_def)

lemma ex_fs_inv: "fs_inv (snd ex_fs)"
  using fs.sequence [of "ex_file_ring 10" fs_start ex_alloc "[Push_read 4 10, Submit 1]"] ex_fs_result(1)
  by (simp add: fs_start_inv ex_fs_def fs_run_def wp_def)

lemma ex_fs_done_result: "ex_fs_done = (Ok (), snd ex_fs_done)" "fi_heap (snd ex_fs_done) = Map.empty"
proof -
  obtain fi where fi: "fi_heap (snd ex_fs) (Obj ''heap'' 0) = Some fi"
    using ex_fs_result(3) by blast
  have "wp (pop_request (ex_file_ring 10)) (\<lambda>r t. r = Ok 0 \<and> fi_heap t = (fi_heap (snd ex_fs))(Obj ''heap'' 0 := None))
      (snd ex_fs)"
    by (subst wp_pop_done [OF ex_fs_inv ex_fs_result(4) _ _ _ fi]) simp_all
  then obtain t where t: "pop_request (ex_file_ring 10) (snd ex_fs) = (Ok 0, t)"
    "fi_heap t = (fi_heap (snd ex_fs))(Obj ''heap'' 0 := None)"
    by (cases "pop_request (ex_file_ring 10) (snd ex_fs)") (simp add: wp_def)
  have "fs_run ex_alloc (ex_file_ring 10) [Push_read 4 10, Submit 1] fs_start = (Ok (), snd ex_fs)"
    using ex_fs_result(1) by (simp add: ex_fs_def prod_eq_iff)
  then have "ex_fs_done = fs_run ex_alloc (ex_file_ring 10) [Pop] (snd ex_fs)"
    using fs_run_append [of ex_alloc "ex_file_ring 10" "[Push_read 4 10, Submit 1]" "[Pop]"]
    by (simp add: ex_fs_done_def bnd_def)
  then have fin: "ex_fs_done = (Ok (), t)"
    using t(1) by (simp add: fs_run_def comp_simps)
  have "fi_heap (snd ex_fs) q = None" if "q \<noteq> Obj ''heap'' 0" for q
    using that by (simp add: ex_fs_def ex_fs_defs comp_simps Let_def)
  then show "ex_fs_done = (Ok (), snd ex_fs_done)" "fi_heap (snd ex_fs_done) = Map.empty"
    unfolding fin using t(2) by (simp_all add: fun_eq_iff)
qed

theorem read_blocks_witness: "sum_list (plan 10) = 10 \<and> length (plan 10) \<le> 8 \<and> pop_blocks 10 = 8"
  using read_blocks [of 10] by (simp add: ex_blocks)

theorem fs_memory_safe_witness: "fst ex_fs_done = Ok () \<and> fs_inv (snd ex_fs_done)"
  using fs_memory_safe [of "ex_file_ring 10" ex_alloc "[Push_read 4 10, Submit 1, Pop]" "Ok ()" "snd ex_fs_done"]
    ex_fs_done_result(1)
  by (simp add: ex_fs_done_def prod_eq_iff)


theorem pop_read_witness:
  "\<exists>t vs. pop_request (ex_file_ring 10) (snd ex_fs) = (Ok 0, t) \<and> Ev_read_callback vs 4 \<in> set (log t) \<and>
    sum_list (map iov_len vs) = 10"
proof -
  obtain fi where fi: "fi_heap (snd ex_fs) (Obj ''heap'' 0) = Some fi" "fi_opcode fi = IORING_OP_READV"
    "fi_file_sz fi = 10" "fi_file_fd fi = 4"
    by (simp add: ex_fs_def ex_fs_defs comp_simps Let_def)
  show ?thesis
    using pop_read [OF ex_fs_inv ex_fs_result(4) [of 10] _ _ _ fi(1,2)] fi(3,4) by fastforce
qed

theorem pop_error_keeps_request_witness:
  "\<exists>t. pop_request (ex_file_ring (-5)) (snd ex_fs) = (Ok (-5), t) \<and> open_reqs (log t) = open_reqs (log (snd ex_fs))"
  using pop_error_keeps_request [OF ex_fs_result(4) [of "-5"]]
  by (cases "pop_request (ex_file_ring (-5)) (snd ex_fs)") simp

end
