(* ===== verification/Sock_Buffer.thy ===== *)
theory Sock_Buffer
  imports Host
begin

text \<open>
  What the socket servers share: a \<^verbatim>\<open>char\<close> array that is filled by \<^verbatim>\<open>recv\<close> and read by
  \<^verbatim>\<open>send\<close>, the messages received and sent along a log, the descriptors alive and watched,
  and the interface \<open>echo_server\<close> between one step of a server and its loop.
\<close>

section \<open>The buffer\<close>

record sockio = io +
  sk_buf :: "byte list"

text \<open>
  \<^verbatim>\<open>recv (fd, buffer, len, 0)\<close>, or \<^verbatim>\<open>recvmsg\<close> with one iovec: the kernel writes what it
  received to the start of the array. Writing past its end is undefined behaviour.
\<close>

definition recv_into :: "sock \<Rightarrow> int \<Rightarrow> nat \<Rightarrow> (sockio, int) comp" where
  "recv_into k fd len = bnd (recv_c k fd len) (\<lambda>(d, n).
     bnd get_state (\<lambda>s.
       if length d \<le> length (sk_buf s)
       then andthen (modify (\<lambda>s. s\<lparr>sk_buf := d @ drop (length d) (sk_buf s)\<rparr>)) (ret n)
       else fail Out_Of_Bounds))"

text \<open>\<^verbatim>\<open>send (fd, buffer, len, 0)\<close>, or \<^verbatim>\<open>sendmsg\<close> with one iovec.\<close>

definition send_from :: "sock \<Rightarrow> int \<Rightarrow> nat \<Rightarrow> (sockio, int) comp" where
  "send_from k fd len = bnd get_state (\<lambda>s.
     if len \<le> length (sk_buf s) then send_c k fd (take len (sk_buf s)) else fail Out_Of_Bounds)"

definition store_byte :: "int \<Rightarrow> byte \<Rightarrow> (sockio, unit) comp" where
  "store_byte i b = bnd get_state (\<lambda>s.
     write_arr (sk_buf s) i b (\<lambda>xs. modify (\<lambda>s. s\<lparr>sk_buf := xs\<rparr>)))"

lemmas buffer_defs = recv_into_def send_from_def store_byte_def

section \<open>What the kernel promises\<close>

text \<open>
  A receive stores as many bytes as it returns, and no more than asked for; \<^verbatim>\<open>epoll_wait\<close>
  fills as many entries as it returns; \<^verbatim>\<open>accept\<close> returns a descriptor or -1.
\<close>

definition sock_ok :: "sock \<Rightarrow> bool" where
  "sock_ok k \<longleftrightarrow>
     (\<forall>h fd len. case k_recv k h fd len of (d, n) \<Rightarrow> n \<le> int len \<and> length d = nat n) \<and>
     (\<forall>h. case k_epoll_wait k h of (n, es) \<Rightarrow> n \<le> int (length es)) \<and>
     (\<forall>h. -1 \<le> k_accept k h)"

lemma sock_okD:
  assumes "sock_ok k"
  shows "k_recv k h fd len = (d, n) \<Longrightarrow> n \<le> int len \<and> length d = nat n"
    "k_epoll_wait k h = (n, es) \<Longrightarrow> n \<le> int (length es)" "-1 \<le> k_accept k h"
  using assms by (auto simp: sock_ok_def split: prod.splits)

section \<open>Messages and descriptors along the log\<close>

definition recvd_of :: "int \<Rightarrow> event \<Rightarrow> (int \<times> byte list) option" where
  "recvd_of lim e = (case e of Ev_recv fd len d n \<Rightarrow> if lim \<le> n then Some (fd, d) else None | _ \<Rightarrow> None)"

definition sent_of :: "event \<Rightarrow> (int \<times> byte list) option" where
  "sent_of e = (case e of Ev_send fd d r \<Rightarrow> Some (fd, d) | _ \<Rightarrow> None)"

text \<open>The receives that returned at least \<open>lim\<close>, and the sends, with their connections.\<close>

definition recvd :: "int \<Rightarrow> event list \<Rightarrow> (int \<times> byte list) list" where
  "recvd lim h = List.map_filter (recvd_of lim) h"

definition sent :: "event list \<Rightarrow> (int \<times> byte list) list" where
  "sent h = List.map_filter sent_of h"

lemma recvd_append [simp]: "recvd lim (g @ h) = recvd lim g @ recvd lim h"
  and sent_append [simp]: "sent (g @ h) = sent g @ sent h"
  and recvd_Nil [simp]: "recvd lim [] = []" and sent_Nil [simp]: "sent [] = []"
  by (simp_all add: recvd_def sent_def map_filter_def)

lemma recvd_Cons [simp]:
  "recvd lim (e # h) = (case recvd_of lim e of None \<Rightarrow> recvd lim h | Some m \<Rightarrow> m # recvd lim h)"
  and sent_Cons [simp]: "sent (e # h) = (case sent_of e of None \<Rightarrow> sent h | Some m \<Rightarrow> m # sent h)"
  by (simp_all add: recvd_def sent_def map_filter_simps split: option.split)

text \<open>Sockets that listen or are connected, and those that an epoll instance watches.\<close>

definition alive_step :: "int set \<Rightarrow> event \<Rightarrow> int set" where
  "alive_step S e = (case e of
      Ev_listen fd _ r \<Rightarrow> if r \<noteq> -1 then insert fd S else S
    | Ev_accept _ _ fd \<Rightarrow> if 0 \<le> fd then insert fd S else S
    | Ev_shutdown fd \<Rightarrow> S - {fd}
    | Ev_close fd \<Rightarrow> S - {fd}
    | _ \<Rightarrow> S)"

definition alive :: "event list \<Rightarrow> int set" where
  "alive h = foldl alive_step {} h"

definition watch_step :: "int set \<Rightarrow> event \<Rightarrow> int set" where
  "watch_step S e = (case e of
      Ev_epoll_ctl _ op fd _ r \<Rightarrow> (case op of
          EPOLL_CTL_ADD \<Rightarrow> if r \<noteq> -1 then insert fd S else S
        | EPOLL_CTL_DEL \<Rightarrow> S - {fd})
    | Ev_close fd \<Rightarrow> S - {fd}
    | _ \<Rightarrow> S)"

definition watched :: "event list \<Rightarrow> int set" where
  "watched h = foldl watch_step {} h"

lemma alive_append [simp]: "alive (g @ h) = foldl alive_step (alive g) h"
  by (simp add: alive_def)

lemma watched_append [simp]: "watched (g @ h) = foldl watch_step (watched g) h"
  by (simp add: watched_def)

lemmas sock_steps = recvd_of_def sent_of_def alive_step_def watch_step_def

text \<open>A receive in terms of what it adds: the data is at the start of the buffer.\<close>

lemma wp_recv_into:
  assumes "sock_ok k" "len \<le> length (sk_buf s)"
    and "\<And>d n. n \<le> int len \<Longrightarrow> length d = nat n \<Longrightarrow>
      Q (Ok n) (s\<lparr>log := log s @ [Ev_recv fd len d n], sk_buf := d @ drop (length d) (sk_buf s)\<rparr>)"
  shows "wp (recv_into k fd len) Q s"
proof -
  obtain d n where r: "k_recv k (log s) fd len = (d, n)"
    by (cases "k_recv k (log s) fd len")
  with sock_okD(1) [OF assms(1)] have "n \<le> int len" "length d = nat n"
    by blast+
  moreover from this have "length d \<le> length (sk_buf s)"
    using assms(2) by linarith
  ultimately show ?thesis
    using assms(3) r by (simp add: recv_into_def recv_c_def wp_simps)
qed

section \<open>A server step and its loop\<close>

text \<open>
  A step keeps the size of the buffer and a property \<open>J\<close> of the log, and does not run into
  undefined behaviour, where the kernel keeps its promises.
\<close>

locale sock_server =
  fixes k :: sock and size :: nat and J :: "event list \<Rightarrow> bool" and step :: "(sockio, unit) comp"
  assumes step: "sock_ok k \<Longrightarrow> length (sk_buf s) = size \<Longrightarrow> J (log s) \<Longrightarrow>
    wp step (sound (\<lambda>_ t. length (sk_buf t) = size \<and> J (log t))) s"
begin

lemma loop:
  "sock_ok k \<Longrightarrow> length (sk_buf s) = size \<Longrightarrow> J (log s) \<Longrightarrow>
    wp (rounds n step) (sound (\<lambda>_ t. length (sk_buf t) = size \<and> J (log t))) s"
  by (rule wp_rounds_sound) (simp_all add: step)

end

section \<open>The loop over the events\<close>

text \<open>\<^verbatim>\<open>epoll_wait\<close>, and the body for each of the entries it filled.\<close>

definition epoll_round ::
    "sock \<Rightarrow> int \<Rightarrow> nat \<Rightarrow> (epoll_event \<Rightarrow> ('x io_scheme, unit) comp) \<Rightarrow> ('x io_scheme, unit) comp" where
  "epoll_round k ep maxevents body =
     bnd (epoll_wait_c k ep maxevents) (\<lambda>(n, events).
       if n = -1 then exit_with 1
       else for_list (\<lambda>i. bnd (read_arr events i) body) [0..n - 1])"

text \<open>A handler of one event gives a server step.\<close>

locale epoll_server =
  fixes k :: sock and size :: nat and J :: "event list \<Rightarrow> bool" and body :: "epoll_event \<Rightarrow> (sockio, unit) comp"
  assumes event: "sock_ok k \<Longrightarrow> length (sk_buf s) = size \<Longrightarrow> J (log s) \<Longrightarrow>
      wp (body e) (sound (\<lambda>_ t. length (sk_buf t) = size \<and> J (log t))) s"
    and wait: "J h \<Longrightarrow> J (h @ [Ev_epoll_wait n es])"
begin

lemma round:
  assumes "sock_ok k" "length (sk_buf s) = size" "J (log s)"
  shows "wp (epoll_round k ep m body) (sound (\<lambda>_ t. length (sk_buf t) = size \<and> J (log t))) s"
proof -
  obtain n es where w: "k_epoll_wait k (log s) = (n, es)"
    by (cases "k_epoll_wait k (log s)")
  have "wp (for_list (\<lambda>i. bnd (read_arr es i) body) [0..n - 1])
      (sound (\<lambda>_ t. length (sk_buf t) = size \<and> J (log t))) (s\<lparr>log := log s @ [Ev_epoll_wait n es]\<rparr>)"
    by (rule wp_for_list_sound)
      (use assms sock_okD(2) [OF assms(1) w] event wait in \<open>auto simp: wp_simps in_bounds_def\<close>)
  then show ?thesis
    by (simp add: epoll_round_def epoll_wait_c_def wp_simps w)
qed

end

sublocale epoll_server \<subseteq> rounds: sock_server k size J "epoll_round k ep m body" for ep m
  by unfold_locales (rule round)

end
