(* ===== verification/Epoll_Echo.thy ===== *)
theory Epoll_Echo
  imports Sock_Buffer IO_Op
begin

text \<open>
  The epoll servers: \<^verbatim>\<open>netpoll/echo/c-epoll-server/main.c\<close> (prefix \<open>ee\<close>) and
  \<^verbatim>\<open>demo/tcp_epoll_send_recvmsg_echo_demo.c\<close> (prefix \<open>ed\<close>).
\<close>

section \<open>The epoll echo server\<close>

definition ee_BACKLOG :: int where "ee_BACKLOG = 512"
definition ee_MAX_EVENTS :: nat where "ee_MAX_EVENTS = 1024"
definition ee_MAX_MESSAGE_LEN :: nat where "ee_MAX_MESSAGE_LEN = 2048"

definition ee_error :: "('x io_scheme, 'a) comp" where
  "ee_error = exit_with 1"

definition ee_handle :: "sock \<Rightarrow> int \<Rightarrow> int \<Rightarrow> epoll_event \<Rightarrow> (sockio, unit) comp" where
  "ee_handle k sock_listen_fd epollfd ev =
     (if ep_fd ev = sock_listen_fd then
        bnd (accept_c k sock_listen_fd SOCK_NONBLOCK) (\<lambda>sock_conn_fd.
          if sock_conn_fd = -1 then ee_error
          else bnd (epoll_ctl_c k epollfd EPOLL_CTL_ADD sock_conn_fd (EPOLLIN OR EPOLLET)) (\<lambda>r.
            if r = -1 then ee_error else ret ()))
      else
        bnd (recv_into k (ep_fd ev) ee_MAX_MESSAGE_LEN) (\<lambda>bytes_received.
          if bytes_received \<le> 0 then
            andthen (epoll_ctl_c k epollfd EPOLL_CTL_DEL (ep_fd ev) 0) (shutdown_c (ep_fd ev))
          else andthen (send_from k (ep_fd ev) (nat bytes_received)) (ret ())))"

definition ee_round :: "sock \<Rightarrow> int \<Rightarrow> int \<Rightarrow> (sockio, unit) comp" where
  "ee_round k sock_listen_fd epollfd =
     epoll_round k epollfd ee_MAX_EVENTS (ee_handle k sock_listen_fd epollfd)"

definition ee_listen :: "sock \<Rightarrow> int \<Rightarrow> (sockio, int) comp" where
  "ee_listen k portno =
     bnd (socket_c k AF_INET SOCK_STREAM 0) (\<lambda>sock_listen_fd.
       if sock_listen_fd < 0 then ee_error
       else bnd (bind_c k sock_listen_fd
             \<lparr>sin_family = AF_INET, sin_port = htons (to_u16 portno), sin_addr = INADDR_ANY\<rparr>) (\<lambda>r.
         if r < 0 then ee_error
         else bnd (listen_c k sock_listen_fd ee_BACKLOG) (\<lambda>r.
           if r < 0 then ee_error else ret sock_listen_fd)))"

definition ee_watch :: "sock \<Rightarrow> int \<Rightarrow> (sockio, int) comp" where
  "ee_watch k sock_listen_fd =
     bnd (epoll_create_c k (int ee_MAX_EVENTS)) (\<lambda>epollfd.
       if epollfd < 0 then ee_error
       else bnd (epoll_ctl_c k epollfd EPOLL_CTL_ADD sock_listen_fd EPOLLIN) (\<lambda>r.
         if r = -1 then ee_error else ret epollfd))"

text \<open>\<open>ee_main k argv n\<close> is \<^verbatim>\<open>main\<close> up to the end of round \<open>n\<close>; the buffer is cleared first.\<close>

definition ee_main :: "sock \<Rightarrow> string list \<Rightarrow> nat \<Rightarrow> (sockio, unit) comp" where
  "ee_main k argv n =
     (if length argv < 2 then exit_with 0
      else andthen (modify (\<lambda>s. s\<lparr>sk_buf := replicate ee_MAX_MESSAGE_LEN 0\<rparr>))
        (bnd (ee_listen k (to_i32 (strtol10 (argv ! 1)))) (\<lambda>sock_listen_fd.
          bnd (ee_watch k sock_listen_fd) (\<lambda>epollfd.
            rounds n (ee_round k sock_listen_fd epollfd)))))"

section \<open>The epoll demo\<close>

definition ed_handle :: "sock \<Rightarrow> int \<Rightarrow> int \<Rightarrow> epoll_event \<Rightarrow> (sockio, unit) comp" where
  "ed_handle k sockfd epollfd ev =
     (if ep_events ev AND EPOLLERR \<noteq> 0 \<or> ep_events ev AND EPOLLHUP \<noteq> 0 then close_c (ep_fd ev)
      else if ep_fd ev = sockfd then
        bnd (accept_c k sockfd 0) (\<lambda>sock_conn_fd.
          if sock_conn_fd = -1 then exit_with 1
          else bnd (epoll_ctl_c k epollfd EPOLL_CTL_ADD sock_conn_fd (EPOLLIN OR EPOLLET)) (\<lambda>r.
            if r = -1 then exit_with 1 else ret ()))
      else
        bnd (recv_into k (ep_fd ev) (MAX_MESSAGE_LEN - 1)) (\<lambda>bytes_received.
          if bytes_received \<le> 0 then
            andthen (epoll_ctl_c k epollfd EPOLL_CTL_DEL (ep_fd ev) 0) (shutdown_c (ep_fd ev))
          else bnd (send_from k (ep_fd ev) (nat bytes_received)) (\<lambda>bytes_sent.
            if bytes_sent < 0 then close_c (ep_fd ev) else ret ())))"

definition ed_round :: "sock \<Rightarrow> int \<Rightarrow> int \<Rightarrow> (sockio, unit) comp" where
  "ed_round k sockfd epollfd = epoll_round k epollfd MAX_EVENTS (ed_handle k sockfd epollfd)"

definition ed_watch :: "sock \<Rightarrow> int \<Rightarrow> (sockio, int) comp" where
  "ed_watch k sockfd =
     bnd (epoll_create_c k 0) (\<lambda>epollfd.
       if epollfd = -1 then exit_with 1
       else bnd (epoll_ctl_c k epollfd EPOLL_CTL_ADD sockfd (EPOLLIN OR EPOLLET)) (\<lambda>r.
         if r = -1 then exit_with 1 else ret epollfd))"

definition ed_main :: "sock \<Rightarrow> string list \<Rightarrow> nat \<Rightarrow> (sockio, unit) comp" where
  "ed_main k argv n =
     (if length argv < 2 then exit_with 1
      else andthen (modify (\<lambda>s. s\<lparr>sk_buf := replicate MAX_MESSAGE_LEN 0\<rparr>))
        (bnd (create_server_socket k (atoi (argv ! 1))) (\<lambda>sockfd.
          if sockfd = -1 then exit_with 1
          else bnd (ed_watch k sockfd) (\<lambda>epollfd.
            rounds n (ed_round k sockfd epollfd)))))"

section \<open>The handlers\<close>

text \<open>The bytes sent so far are those received, and the sockets alive are those watched.\<close>

definition echoes :: "event list \<Rightarrow> bool" where
  "echoes h \<longleftrightarrow> sent h = recvd 1 h \<and> watched h = alive h"

lemmas epoll_run = wp_simps host_defs send_from_def sock_steps echoes_def

lemma ee_handle_echoes:
  assumes k: "sock_ok k" and s: "length (sk_buf s) = ee_MAX_MESSAGE_LEN" "echoes (log s)"
  shows "wp (ee_handle k lfd ep ev)
    (sound (\<lambda>_ t. length (sk_buf t) = ee_MAX_MESSAGE_LEN \<and> echoes (log t))) s"
proof (cases "ep_fd ev = lfd")
  case True
  then show ?thesis
    using s sock_okD(3) [OF k, of "log s"] by (simp add: ee_handle_def ee_error_def epoll_run)
next
  case False
  with s show ?thesis
    unfolding ee_handle_def if_not_P [OF False] wp_bnd [of "recv_into _ _ _"]
    by (intro wp_recv_into [OF k]) (auto simp: epoll_run)
qed

lemma ed_handle_echoes:
  assumes k: "sock_ok k" and s: "length (sk_buf s) = MAX_MESSAGE_LEN" "echoes (log s)"
  shows "wp (ed_handle k lfd ep ev) (sound (\<lambda>_ t. length (sk_buf t) = MAX_MESSAGE_LEN \<and> echoes (log t))) s"
proof (cases "ep_events ev AND EPOLLERR \<noteq> 0 \<or> ep_events ev AND EPOLLHUP \<noteq> 0 \<or> ep_fd ev = lfd")
  case True
  then show ?thesis
    using s sock_okD(3) [OF k, of "log s"] by (auto simp: ed_handle_def epoll_run)
next
  case False
  then have c: "\<not> (ep_events ev AND EPOLLERR \<noteq> 0 \<or> ep_events ev AND EPOLLHUP \<noteq> 0)" "ep_fd ev \<noteq> lfd"
    by auto
  with s show ?thesis
    unfolding ed_handle_def if_not_P [OF c(1)] if_not_P [OF c(2)] wp_bnd [of "recv_into _ _ _"]
    by (intro wp_recv_into [OF k]) (auto simp: epoll_run MAX_MESSAGE_LEN_def)
qed

interpretation ee: epoll_server k ee_MAX_MESSAGE_LEN echoes "ee_handle k lfd ep" for k lfd ep
  by unfold_locales (simp_all add: ee_handle_echoes, simp add: echoes_def sock_steps)

interpretation ed: epoll_server k MAX_MESSAGE_LEN echoes "ed_handle k lfd ep" for k lfd ep
  by unfold_locales (simp_all add: ed_handle_echoes, simp add: echoes_def sock_steps)

text \<open>Start-up leaves the listening socket as the only one alive and watched.\<close>

lemma ee_main_sound:
  assumes "sock_ok k" "log s = []"
  shows "wp (ee_main k argv n) (sound (\<lambda>_ t. length (sk_buf t) = ee_MAX_MESSAGE_LEN \<and> echoes (log t))) s"
proof -
  let ?P = "\<lambda>t. length (sk_buf t) = ee_MAX_MESSAGE_LEN \<and> sent (log t) = [] \<and> recvd 1 (log t) = []"
  have l: "wp (ee_listen k p) (sound (\<lambda>fd t. ?P t \<and> watched (log t) = {} \<and> alive (log t) = {fd})) t"
    if "length (sk_buf t) = ee_MAX_MESSAGE_LEN" "log t = []" for p t
    using that by (auto simp: ee_listen_def ee_error_def epoll_run alive_def watched_def)
  have w: "wp (ee_watch k fd) (sound (\<lambda>_ t. length (sk_buf t) = ee_MAX_MESSAGE_LEN \<and> echoes (log t))) t"
    if "?P t \<and> watched (log t) = {} \<and> alive (log t) = {fd}" for fd t
    using that by (auto simp: ee_watch_def ee_error_def epoll_run)
  show ?thesis
    using assms by (auto simp: ee_main_def ee_round_def wp_if wp_exit wp_andthen [of "modify _"] wp_modify
        intro!: wp_bnd_sound [OF l] wp_bnd_sound [OF w] ee.rounds.loop)
qed

lemma create_server_socket_alive:
  assumes "log s = []" "length (sk_buf s) = N"
  shows "wp (create_server_socket k p) (sound (\<lambda>fd t. fd \<noteq> -1 \<longrightarrow> length (sk_buf t) = N \<and>
    sent (log t) = [] \<and> recvd 1 (log t) = [] \<and> watched (log t) = {} \<and> alive (log t) = {fd})) s"
  using assms by (auto simp: create_server_socket_def epoll_run alive_def watched_def)

lemma ed_main_sound:
  assumes "sock_ok k" "log s = []"
  shows "wp (ed_main k argv n) (sound (\<lambda>_ t. length (sk_buf t) = MAX_MESSAGE_LEN \<and> echoes (log t))) s"
proof -
  have w: "wp (ed_watch k fd) (sound (\<lambda>_ t. length (sk_buf t) = MAX_MESSAGE_LEN \<and> echoes (log t))) t"
    if "length (sk_buf t) = MAX_MESSAGE_LEN" "sent (log t) = []" "recvd 1 (log t) = []"
      "watched (log t) = {}" "alive (log t) = {fd}" for fd t
    using that by (auto simp: ed_watch_def epoll_run)
  show ?thesis
    using assms by (auto simp: ed_main_def ed_round_def wp_if wp_exit wp_andthen [of "modify _"] wp_modify
        intro!: wp_bnd_sound [OF create_server_socket_alive [where N = MAX_MESSAGE_LEN]]
          wp_bnd_sound [OF w] ed.rounds.loop)
qed

section \<open>Connections are shut down, not closed\<close>

definition no_close :: "event list \<Rightarrow> bool" where
  "no_close h \<longleftrightarrow> list_all (\<lambda>e. case e of Ev_close fd \<Rightarrow> False | _ \<Rightarrow> True) h"

lemma ee_handle_no_close:
  assumes k: "sock_ok k" and s: "length (sk_buf s) = ee_MAX_MESSAGE_LEN" "no_close (log s)"
  shows "wp (ee_handle k lfd ep ev)
    (sound (\<lambda>_ t. length (sk_buf t) = ee_MAX_MESSAGE_LEN \<and> no_close (log t))) s"
proof (cases "ep_fd ev = lfd")
  case True
  then show ?thesis
    using s by (simp add: ee_handle_def ee_error_def epoll_run no_close_def)
next
  case False
  with s show ?thesis
    unfolding ee_handle_def if_not_P [OF False] wp_bnd [of "recv_into _ _ _"]
    by (intro wp_recv_into [OF k]) (auto simp: epoll_run no_close_def)
qed

interpretation ee_no_close: epoll_server k ee_MAX_MESSAGE_LEN no_close "ee_handle k lfd ep" for k lfd ep
  by unfold_locales (simp_all add: ee_handle_no_close, simp add: no_close_def)

lemma ee_main_no_close:
  assumes "sock_ok k" "log s = []"
  shows "wp (ee_main k argv n) (sound (\<lambda>_ t. length (sk_buf t) = ee_MAX_MESSAGE_LEN \<and> no_close (log t))) s"
proof -
  have l: "wp (ee_listen k p) (sound (\<lambda>fd t. length (sk_buf t) = ee_MAX_MESSAGE_LEN \<and> no_close (log t))) t"
    if "length (sk_buf t) = ee_MAX_MESSAGE_LEN" "log t = []" for p t
    using that by (auto simp: ee_listen_def ee_error_def epoll_run no_close_def)
  have w: "wp (ee_watch k fd) (sound (\<lambda>_ t. length (sk_buf t) = ee_MAX_MESSAGE_LEN \<and> no_close (log t))) t"
    if "length (sk_buf t) = ee_MAX_MESSAGE_LEN \<and> no_close (log t)" for fd t
    using that by (auto simp: ee_watch_def ee_error_def epoll_run no_close_def)
  show ?thesis
    using assms by (auto simp: ee_main_def ee_round_def wp_if wp_exit wp_andthen [of "modify _"] wp_modify
        intro!: wp_bnd_sound [OF l] wp_bnd_sound [OF w] ee_no_close.rounds.loop)
qed

section \<open>Properties\<close>


text \<open>
  C25: the epoll demo, which also closes connections on errors, never accesses memory
  outside its buffer, echoes message by message, and epoll watches exactly the sockets
  that are still alive.
\<close>

theorem ed_echo:
  assumes "sock_ok k" and "log s = []" and "ed_main k argv n s = (r, t)"
  shows "case r of
      Ok _ \<Rightarrow> sent (log t) = recvd 1 (log t) \<and> watched (log t) = alive (log t)
    | Exit _ \<Rightarrow> True
    | Fault _ \<Rightarrow> False"
  using wpD [OF ed_main_sound [OF assms(1,2)] assms(3)]
  by (simp add: sound_def echoes_def split: outcome.splits)

text \<open>
  C38: the epoll echo server never closes a descriptor: each connection it accepted keeps its
  descriptor after it was shut down, for as long as the server runs.
\<close>

theorem ee_never_closes:
  assumes "sock_ok k" and "log s = []" and "ee_main k argv n s = (Ok (), t)"
  shows "Ev_close fd \<notin> set (log t)"
  using wpD [OF ee_main_no_close [OF assms(1,2)] assms(3)]
  by (auto simp: no_close_def list_all_iff)

section \<open>Witnesses\<close>

text \<open>A client connects on descriptor 5 and sends two bytes.\<close>

definition ex_echo_sock :: sock where
  "ex_echo_sock = ex_sock\<lparr>k_recv := \<lambda>_ _ len. if 2 \<le> len then ([104, 105], 2) else ([], 0),
     k_epoll_wait := \<lambda>h. (1, [\<lparr>ep_events = 1, ep_fd = (if 5 \<in> alive h then 5 else 3)\<rparr>])\<rparr>"

lemma ex_echo_sock_sel [simp]:
  "k_recv ex_echo_sock h fd len = (if 2 \<le> len then ([104, 105], 2) else ([], 0))"
  "k_socket ex_echo_sock h = 3" "k_bind ex_echo_sock h = 0"
  "k_listen ex_echo_sock h = 0" "k_accept ex_echo_sock h = 5" "k_epoll_create ex_echo_sock h = 4"
  "k_epoll_ctl ex_echo_sock h op fd = 0" "k_send ex_echo_sock h fd d = int (length d)"
  "k_epoll_wait ex_echo_sock h = (1, [\<lparr>ep_events = 1, ep_fd = (if 5 \<in> alive h then 5 else 3)\<rparr>])"
  by (simp_all add: ex_echo_sock_def)

lemma ex_echo_sock_ok [simp]: "sock_ok ex_echo_sock"
  by (simp add: sock_ok_def)

definition ex_sockio :: sockio where
  "ex_sockio = \<lparr>log = [], sk_buf = []\<rparr>"

lemma ex_sockio_sel [simp]: "log ex_sockio = []" "sk_buf ex_sockio = []"
  by (simp_all add: ex_sockio_def)

lemmas ex_epoll_defs = ee_main_def ee_listen_def ee_watch_def ee_round_def ee_handle_def ed_main_def
  ed_watch_def ed_round_def ed_handle_def epoll_round_def create_server_socket_def

lemma ex_ee_run:
  "\<exists>t. ee_main ex_echo_sock [''server'', ''8080''] 2 ex_sockio = (Ok (), t) \<and>
    recvd 1 (log t) = [(5, [104, 105])] \<and> alive (log t) = {5, 3}"
  by (simp add: ex_epoll_defs host_defs comp_simps buffer_defs read_arr_def in_bounds_def alive_def sock_steps
      ee_MAX_MESSAGE_LEN_def)

lemma ex_ed_run:
  "\<exists>t. ed_main ex_echo_sock [''server'', ''8080''] 2 ex_sockio = (Ok (), t) \<and>
    recvd 1 (log t) = [(5, [104, 105])] \<and> alive (log t) = {5, 3}"
  by (simp add: ex_epoll_defs host_defs comp_simps buffer_defs read_arr_def in_bounds_def alive_def sock_steps
      MAX_MESSAGE_LEN_def)


theorem ed_echo_witness:
  "\<exists>t. ed_main ex_echo_sock [''server'', ''8080''] 2 ex_sockio = (Ok (), t) \<and>
    sent (log t) = [(5, [104, 105])] \<and> watched (log t) = {5, 3}"
  using ex_ed_run ed_echo [OF ex_echo_sock_ok ex_sockio_sel(1)] by fastforce

theorem ee_never_closes_witness:
  "\<exists>t. ee_main ex_echo_sock [''server'', ''8080''] 2 ex_sockio = (Ok (), t) \<and> Ev_close 5 \<notin> set (log t)"
  using ex_ee_run ee_never_closes [OF ex_echo_sock_ok ex_sockio_sel(1)] by blast

end
