(* ===== verification/Blocking_Demos.thy ===== *)
theory Blocking_Demos
  imports Sock_Buffer Epoll_Echo
begin

text \<open>
  The blocking servers that handle one connection after the other:
  \<^verbatim>\<open>demo/tcp_send_recvmsg_echo_demo.c\<close> (prefix \<open>be\<close>) and \<^verbatim>\<open>demo/tcp_send_recvmsg_demo.c\<close>
  (prefix \<open>bh\<close>), which answers with a fixed string.
\<close>

section \<open>The programs\<close>

definition MAX_BUFFER_SIZE :: nat where "MAX_BUFFER_SIZE = 1024"

definition be_listen :: "sock \<Rightarrow> (sockio, int) comp" where
  "be_listen k =
     bnd (socket_c k AF_INET SOCK_STREAM 0) (\<lambda>listenfd.
       if listenfd < 0 then exit_with 1
       else bnd (bind_c k listenfd \<lparr>sin_family = AF_INET, sin_port = htons 8888, sin_addr = INADDR_ANY\<rparr>) (\<lambda>r.
         if r < 0 then exit_with 1
         else bnd (listen_c k listenfd 10) (\<lambda>r.
           if r < 0 then exit_with 1 else ret listenfd)))"

text \<open>One round of the loop: a \<^verbatim>\<open>continue\<close> ends it.\<close>

definition be_round :: "sock \<Rightarrow> int \<Rightarrow> (sockio, unit) comp" where
  "be_round k listenfd =
     bnd (accept_c k listenfd 0) (\<lambda>connfd.
       if connfd < 0 then ret ()
       else bnd (recv_into k connfd (MAX_BUFFER_SIZE - 1)) (\<lambda>bytes_received.
         if bytes_received < 0 then close_c connfd
         else andthen (store_byte bytes_received 0)
          (bnd (send_from k connfd (nat bytes_received)) (\<lambda>bytes_sent.
             if bytes_sent < 0 then close_c connfd else close_c connfd))))"

definition be_main :: "sock \<Rightarrow> nat \<Rightarrow> (sockio, unit) comp" where
  "be_main k n = bnd (be_listen k) (\<lambda>listenfd. rounds n (be_round k listenfd))"

definition hello :: "byte list" where
  "hello = map of_char ''Hello, client!''"

definition bh_listen :: "sock \<Rightarrow> (sockio, int) comp" where
  "bh_listen k =
     bnd (socket_c k AF_INET SOCK_STREAM 0) (\<lambda>listenfd.
       if listenfd < 0 then exit_with 1
       else bnd (bind_c k listenfd \<lparr>sin_family = AF_INET, sin_port = htons 8888, sin_addr = INADDR_ANY\<rparr>) (\<lambda>r.
         if r < 0 then exit_with 1
         else bnd (listen_c k listenfd 10) (\<lambda>r.
           if r < 0 then exit_with 1 else ret listenfd)))"

definition bh_round :: "sock \<Rightarrow> int \<Rightarrow> (sockio, unit) comp" where
  "bh_round k listenfd =
     bnd (accept_c k listenfd 0) (\<lambda>connfd.
       if connfd < 0 then ret ()
       else bnd (recv_into k connfd (MAX_BUFFER_SIZE - 1)) (\<lambda>bytes_received.
         if bytes_received < 0 then close_c connfd
         else andthen (store_byte bytes_received 0)
          (bnd (send_c k connfd hello) (\<lambda>bytes_sent.
             if bytes_sent < 0 then close_c connfd else close_c connfd))))"

definition bh_main :: "sock \<Rightarrow> nat \<Rightarrow> (sockio, unit) comp" where
  "bh_main k n = bnd (bh_listen k) (\<lambda>listenfd. rounds n (bh_round k listenfd))"

section \<open>What a round keeps\<close>

text \<open>
  Connections opened and not closed, and the two relations between what was received and
  what was sent.
\<close>

definition conn_step :: "int set \<Rightarrow> event \<Rightarrow> int set" where
  "conn_step S e = (case e of
      Ev_accept _ _ fd \<Rightarrow> if 0 \<le> fd then insert fd S else S
    | Ev_close fd \<Rightarrow> S - {fd}
    | _ \<Rightarrow> S)"

definition connections :: "event list \<Rightarrow> int set" where
  "connections h = foldl conn_step {} h"

lemma connections_append [simp]: "connections (g @ h) = foldl conn_step (connections g) h"
  by (simp add: connections_def)

definition be_ok :: "event list \<Rightarrow> bool" where
  "be_ok h \<longleftrightarrow> connections h = {} \<and> sent h = recvd 0 h"

definition bh_ok :: "event list \<Rightarrow> bool" where
  "bh_ok h \<longleftrightarrow> connections h = {} \<and> sent h = map (\<lambda>(fd, _). (fd, hello)) (recvd 0 h)"

lemmas blocking_run = wp_simps host_defs send_from_def store_byte_def sock_steps conn_step_def in_bounds_def
  MAX_BUFFER_SIZE_def

lemma be_round_ok:
  assumes k: "sock_ok k" and s: "length (sk_buf s) = MAX_BUFFER_SIZE" "be_ok (log s)"
  shows "wp (be_round k lfd) (sound (\<lambda>_ t. length (sk_buf t) = MAX_BUFFER_SIZE \<and> be_ok (log t))) s"
proof (cases "k_accept k (log s) < 0")
  case True
  with s show ?thesis by (simp add: be_round_def be_ok_def blocking_run)
next
  case False
  let ?c = "k_accept k (log s)" and ?s = "s\<lparr>log := log s @ [Ev_accept lfd 0 (k_accept k (log s))]\<rparr>"
  have "wp (bnd (recv_into k ?c (MAX_BUFFER_SIZE - 1)) (\<lambda>n.
      if n < 0 then close_c ?c else andthen (store_byte n 0)
        (bnd (send_from k ?c (nat n)) (\<lambda>r. if r < 0 then close_c ?c else close_c ?c))))
      (sound (\<lambda>_ t. length (sk_buf t) = MAX_BUFFER_SIZE \<and> be_ok (log t))) ?s"
    unfolding wp_bnd [of "recv_into _ _ _"]
    using s False by (intro wp_recv_into [OF k]) (auto simp: blocking_run be_ok_def)
  with False show ?thesis
    by (simp add: be_round_def accept_c_def wp_bnd [of "ask _ _"] wp_ask)
qed

lemma bh_round_ok:
  assumes k: "sock_ok k" and s: "length (sk_buf s) = MAX_BUFFER_SIZE" "bh_ok (log s)"
  shows "wp (bh_round k lfd) (sound (\<lambda>_ t. length (sk_buf t) = MAX_BUFFER_SIZE \<and> bh_ok (log t))) s"
proof (cases "k_accept k (log s) < 0")
  case True
  with s show ?thesis by (simp add: bh_round_def bh_ok_def blocking_run)
next
  case False
  let ?c = "k_accept k (log s)" and ?s = "s\<lparr>log := log s @ [Ev_accept lfd 0 (k_accept k (log s))]\<rparr>"
  have "wp (bnd (recv_into k ?c (MAX_BUFFER_SIZE - 1)) (\<lambda>n.
      if n < 0 then close_c ?c else andthen (store_byte n 0)
        (bnd (send_c k ?c hello) (\<lambda>r. if r < 0 then close_c ?c else close_c ?c))))
      (sound (\<lambda>_ t. length (sk_buf t) = MAX_BUFFER_SIZE \<and> bh_ok (log t))) ?s"
    unfolding wp_bnd [of "recv_into _ _ _"]
    using s False by (intro wp_recv_into [OF k]) (auto simp: blocking_run bh_ok_def)
  with False show ?thesis
    by (simp add: bh_round_def accept_c_def wp_bnd [of "ask _ _"] wp_ask)
qed

interpretation be: sock_server k MAX_BUFFER_SIZE be_ok "be_round k lfd" for k lfd
  by unfold_locales (rule be_round_ok)

interpretation bh: sock_server k MAX_BUFFER_SIZE bh_ok "bh_round k lfd" for k lfd
  by unfold_locales (rule bh_round_ok)

lemma be_main_ok:
  assumes "sock_ok k" "log s = []" "length (sk_buf s) = MAX_BUFFER_SIZE"
  shows "wp (be_main k n) (sound (\<lambda>_ t. length (sk_buf t) = MAX_BUFFER_SIZE \<and> be_ok (log t))) s"
proof -
  have "wp (be_listen k) (sound (\<lambda>_ t. length (sk_buf t) = MAX_BUFFER_SIZE \<and> be_ok (log t))) s"
    using assms by (simp add: be_listen_def blocking_run be_ok_def connections_def)
  then show ?thesis
    unfolding be_main_def by (rule wp_bnd_sound) (simp add: be.loop assms(1))
qed

lemma bh_main_ok:
  assumes "sock_ok k" "log s = []" "length (sk_buf s) = MAX_BUFFER_SIZE"
  shows "wp (bh_main k n) (sound (\<lambda>_ t. length (sk_buf t) = MAX_BUFFER_SIZE \<and> bh_ok (log t))) s"
proof -
  have "wp (bh_listen k) (sound (\<lambda>_ t. length (sk_buf t) = MAX_BUFFER_SIZE \<and> bh_ok (log t))) s"
    using assms by (simp add: bh_listen_def blocking_run bh_ok_def connections_def)
  then show ?thesis
    unfolding bh_main_def by (rule wp_bnd_sound) (simp add: bh.loop assms(1))
qed

section \<open>Properties\<close>

text \<open>
  C26: whatever the buffer holds at the start, the blocking echo server never accesses memory
  outside it (the terminating zero included), has sent after each round the bytes of every
  receive that did not fail on the same connection, and keeps no connection open.
\<close>

theorem be_echo:
  assumes "sock_ok k" and "log s = []" and "length (sk_buf s) = MAX_BUFFER_SIZE" and "be_main k n s = (r, t)"
  shows "case r of
      Ok _ \<Rightarrow> sent (log t) = recvd 0 (log t) \<and> connections (log t) = {}
    | Exit _ \<Rightarrow> True
    | Fault _ \<Rightarrow> False"
  using wpD [OF be_main_ok [OF assms(1-3)] assms(4)] by (simp add: sound_def be_ok_def split: outcome.splits)

text \<open>
  C27: the other blocking server answers every receive that did not fail with its greeting, on
  the same connection, never accesses memory outside its buffer, and keeps no connection
  open.
\<close>

theorem bh_answers:
  assumes "sock_ok k" and "log s = []" and "length (sk_buf s) = MAX_BUFFER_SIZE" and "bh_main k n s = (r, t)"
  shows "case r of
      Ok _ \<Rightarrow> sent (log t) = map (\<lambda>(fd, _). (fd, hello)) (recvd 0 (log t)) \<and> connections (log t) = {}
    | Exit _ \<Rightarrow> True
    | Fault _ \<Rightarrow> False"
  using wpD [OF bh_main_ok [OF assms(1-3)] assms(4)] by (simp add: sound_def bh_ok_def split: outcome.splits)

section \<open>Witnesses\<close>

definition ex_buffer :: sockio where
  "ex_buffer = \<lparr>log = [], sk_buf = replicate MAX_BUFFER_SIZE 0xff\<rparr>"

lemma ex_buffer_sel [simp]:
  "log ex_buffer = []" "length (sk_buf ex_buffer) = MAX_BUFFER_SIZE" "sk_buf ex_buffer = replicate MAX_BUFFER_SIZE 0xff"
  by (simp_all add: ex_buffer_def)

lemmas ex_blocking_defs = be_main_def be_listen_def be_round_def bh_main_def bh_listen_def bh_round_def

lemma ex_be_run: "\<exists>t. be_main ex_echo_sock 1 ex_buffer = (Ok (), t) \<and> recvd 0 (log t) = [(5, [104, 105])]"
  by (simp add: ex_blocking_defs host_defs comp_simps buffer_defs write_arr_def in_bounds_def sock_steps
      MAX_BUFFER_SIZE_def)

lemma ex_bh_run: "\<exists>t. bh_main ex_echo_sock 1 ex_buffer = (Ok (), t) \<and> recvd 0 (log t) = [(5, [104, 105])]"
  by (simp add: ex_blocking_defs host_defs comp_simps buffer_defs write_arr_def in_bounds_def sock_steps
      MAX_BUFFER_SIZE_def)

theorem be_echo_witness:
  "\<exists>t. be_main ex_echo_sock 1 ex_buffer = (Ok (), t) \<and> sent (log t) = [(5, [104, 105])] \<and> connections (log t) = {}"
  using ex_be_run be_echo [OF ex_echo_sock_ok ex_buffer_sel(1,2)] by fastforce

theorem bh_answers_witness:
  "\<exists>t. bh_main ex_echo_sock 1 ex_buffer = (Ok (), t) \<and> sent (log t) = [(5, hello)] \<and> connections (log t) = {}"
  using ex_bh_run bh_answers [OF ex_echo_sock_ok ex_buffer_sel(1,2)] by fastforce

end
