(* ===== verification/Getopt.thy ===== *)
theory Getopt
  imports C_Std
begin

text \<open>
  \<^verbatim>\<open>getopt\<close> of the C library, called in a loop until it returns -1: the options in the
  order in which it returns them, and the argument vector it leaves behind, with the
  arguments that are no options moved to the end (the default order of the GNU library).
\<close>

datatype opt = Opt char | Opt_arg char string | Opt_bad

datatype opt_kind = No_opt | Flag | Takes_arg

fun kind_of :: "string \<Rightarrow> char \<Rightarrow> opt_kind" where
  "kind_of [] c = No_opt"
| "kind_of (x # xs) c =
     (if x = c \<and> c \<noteq> CHR '':'' then
        (case xs of y # _ \<Rightarrow> if y = CHR '':'' then Takes_arg else Flag | [] \<Rightarrow> Flag)
      else kind_of xs c)"

text \<open>
  The characters of one argument after its dash: the options, the further arguments used
  up, and the arguments left.
\<close>

fun opt_cluster :: "string \<Rightarrow> string \<Rightarrow> string list \<Rightarrow> opt list \<times> string list \<times> string list" where
  "opt_cluster spec [] rest = ([], [], rest)"
| "opt_cluster spec (c # cs) rest = (case kind_of spec c of
      No_opt \<Rightarrow> (case opt_cluster spec cs rest of (os, used, r) \<Rightarrow> (Opt_bad # os, used, r))
    | Flag \<Rightarrow> (case opt_cluster spec cs rest of (os, used, r) \<Rightarrow> (Opt c # os, used, r))
    | Takes_arg \<Rightarrow>
        if cs \<noteq> [] then ([Opt_arg c cs], [], rest)
        else (case rest of [] \<Rightarrow> ([Opt_bad], [], []) | a # r \<Rightarrow> ([Opt_arg c a], [a], r)))"

definition is_option :: "string \<Rightarrow> bool" where
  "is_option a \<longleftrightarrow> (case a of x # _ # _ \<Rightarrow> x = CHR ''-'' | _ \<Rightarrow> False)"

lemma opt_cluster_rest: "opt_cluster spec cs rest = (os, used, r) \<Longrightarrow> length r \<le> length rest"
  by (induction spec cs rest arbitrary: os used r rule: opt_cluster.induct)
    (auto split: opt_kind.splits prod.splits list.splits if_splits)

text \<open>The options, the arguments that are options, and the others.\<close>

function getopt_scan :: "string \<Rightarrow> string list \<Rightarrow> opt list \<times> string list \<times> string list" where
  "getopt_scan spec [] = ([], [], [])"
| "getopt_scan spec (a # as) =
     (if a = ''--'' then ([], [a], as)
      else if is_option a then
        (case opt_cluster spec (tl a) as of (os, used, r) \<Rightarrow>
          (case getopt_scan spec r of (os', es, ns) \<Rightarrow> (os @ os', a # used @ es, ns)))
      else (case getopt_scan spec as of (os, es, ns) \<Rightarrow> (os, es, a # ns)))"
  by pat_completeness auto
termination
  by (relation "measure (\<lambda>(spec, as). length as)") (auto dest: opt_cluster_rest [OF sym])

text \<open>The whole loop, for the program name and its arguments.\<close>

definition getopt_all :: "string \<Rightarrow> string list \<Rightarrow> opt list \<times> string list" where
  "getopt_all spec argv = (case argv of
      [] \<Rightarrow> ([], [])
    | prog # args \<Rightarrow> (case getopt_scan spec args of (os, es, ns) \<Rightarrow> (os, prog # es @ ns)))"

text \<open>Nothing is lost: the argument vector is permuted.\<close>

lemma opt_cluster_used: "opt_cluster spec cs rest = (os, used, r) \<Longrightarrow> rest = used @ r"
  by (induction spec cs rest arbitrary: os used r rule: opt_cluster.induct)
    (auto split: opt_kind.splits prod.splits list.splits if_splits)

lemma getopt_scan_perm: "getopt_scan spec as = (os, es, ns) \<Longrightarrow> mset (es @ ns) = mset as"
  by (induction spec as arbitrary: os es ns rule: getopt_scan.induct)
    (auto split: prod.splits if_splits dest!: opt_cluster_used)

text \<open>Without options the vector stays as it is.\<close>

lemma getopt_scan_plain: "list_all (\<lambda>a. \<not> is_option a) as \<Longrightarrow> getopt_scan spec as = ([], [], as)"
  by (induction as) (auto simp: is_option_def)

end
