(* ===== verification/Server_Args.thy ===== *)
theory Server_Args
  imports Getopt Example_Env
begin

text \<open>
  What the variants v1, v2 and v3 of the io_uring echo server have in common: their static
  variables, the command line, the buffers, the listening socket and the table of
  registered files. The three sources hold copies of this code; the line numbers of the
  map are those of v1.
\<close>

section \<open>Static variables\<close>

record srv = io +
  portno :: int
  registerfiles :: bool
  max_connections :: int
  msg_len :: int
  registered_files :: "int list"
  bufs :: "ptr list"

definition srv_BACKLOG :: nat where "srv_BACKLOG = 8192"

text \<open>The entries of the table of connections.\<close>

record tconn =
  tc_fd :: u32
  tc_type :: u32

definition srv_ACCEPT :: u32 where "srv_ACCEPT = 0"
definition srv_READ :: u32 where "srv_READ = 3"
definition srv_WRITE :: u32 where "srv_WRITE = 4"
definition srv_POLL_IN_READY :: u32 where "srv_POLL_IN_READY = 5"

definition zero_conn :: tconn where
  "zero_conn = \<lparr>tc_fd = 0, tc_type = 0\<rparr>"

section \<open>The command line\<close>

definition srv_option :: "opt \<Rightarrow> ('x srv_scheme, unit) comp" where
  "srv_option p = (case p of
      Opt_arg c a \<Rightarrow>
        if c = CHR ''p'' then modify (\<lambda>s. s\<lparr>portno := atoi a\<rparr>)
        else if c = CHR ''n'' then modify (\<lambda>s. s\<lparr>max_connections := atoi a\<rparr>)
        else if c = CHR ''l'' then modify (\<lambda>s. s\<lparr>msg_len := atoi a\<rparr>)
        else exit_with 1
    | Opt c \<Rightarrow>
        if c = CHR ''f'' then modify (\<lambda>s. s\<lparr>registerfiles := True\<rparr>)
        else if c = CHR ''h'' then exit_with 0
        else exit_with 1
    | Opt_bad \<Rightarrow> exit_with 1)"

definition srv_getopt :: "string list \<Rightarrow> ('x srv_scheme, string list) comp" where
  "srv_getopt argv = (case getopt_all ''p:fn:l:h'' argv of (os, argv') \<Rightarrow>
     andthen (for_list srv_option os) (ret argv'))"

text \<open>The port as a plain argument. \<^verbatim>\<open>argv[1]\<close> is a null pointer where there is none.\<close>

definition srv_plain_port :: "string list \<Rightarrow> ('x srv_scheme, unit) comp" where
  "srv_plain_port argv =
     (if length argv < 2 then fail Null_Deref
      else bnd get_state (\<lambda>s.
        let port = atoi (argv ! 1) in
        if portno s = 0 \<and> 3000 < port then modify (\<lambda>s. s\<lparr>portno := port\<rparr>) else exit_with 1))"

definition srv_args :: "string list \<Rightarrow> ('x srv_scheme, unit) comp" where
  "srv_args argv =
     bnd (srv_getopt argv) (\<lambda>argv.
       andthen (bnd get_state (\<lambda>s.
           if portno s = 0 \<or> max_connections s = 0 then srv_plain_port argv else ret ()))
         (modify (\<lambda>s. if msg_len s = 0 then s\<lparr>msg_len := 128\<rparr> else s)))"

section \<open>Memory\<close>

definition srv_reserve :: "('x srv_scheme, unit) comp" where
  "srv_reserve = bnd get_state (\<lambda>s.
     if is_i32 (max_connections s + 32) then modify (\<lambda>s. s\<lparr>max_connections := max_connections s + 32\<rparr>)
     else fail Int_Overflow)"

text \<open>The result of the \<^verbatim>\<open>calloc\<close> for the array of pointers is not tested.\<close>

definition srv_alloc_buf :: "alloc \<Rightarrow> ptr \<Rightarrow> ('x srv_scheme, unit) comp" where
  "srv_alloc_buf a p = bnd get_state (\<lambda>s. bnd (malloc_c a (to_size (msg_len s))) (\<lambda>b.
     if p = NULL then fail Null_Deref
     else if b = NULL then exit_with 1
     else modify (\<lambda>s. s\<lparr>bufs := bufs s @ [b]\<rparr>)))"

definition srv_alloc_bufs :: "alloc \<Rightarrow> ('x srv_scheme, unit) comp" where
  "srv_alloc_bufs a = bnd get_state (\<lambda>s.
     bnd (malloc_c a (8 * to_size (max_connections s))) (\<lambda>p.
       for_list (\<lambda>i. srv_alloc_buf a p) [0..max_connections s - 1]))"

section \<open>Socket and ring\<close>

definition srv_listen :: "sock \<Rightarrow> int \<Rightarrow> ('x srv_scheme, int) comp" where
  "srv_listen k ty = bnd get_state (\<lambda>s.
     bnd (socket_c k AF_INET ty 0) (\<lambda>sock_listen_fd.
       andthen (emit (Ev_setsockopt sock_listen_fd))
      (bnd (bind_c k sock_listen_fd
             \<lparr>sin_family = AF_INET, sin_port = htons (to_u16 (portno s)), sin_addr = INADDR_ANY\<rparr>) (\<lambda>ret'.
         if ret' < 0 then exit_with 1
         else bnd (listen_c k sock_listen_fd (int srv_BACKLOG)) (\<lambda>ret'.
           if ret' < 0 then exit_with 1 else ret sock_listen_fd)))))"

definition srv_init_ring :: "uring \<Rightarrow> nat \<Rightarrow> u32 \<Rightarrow> ('x srv_scheme, unit) comp" where
  "srv_init_ring u entries flags =
     bnd (queue_init_params u entries flags) (\<lambda>(r, features).
       if r < 0 then exit_with 1
       else if features AND IORING_FEAT_FAST_POLL = 0 then exit_with 0 else ret ())"

text \<open>Two arrays of \<open>n\<close> entries, each -1; the first is handed to the kernel.\<close>

definition srv_register_files :: "alloc \<Rightarrow> uring \<Rightarrow> nat \<Rightarrow> ('x srv_scheme, int) comp" where
  "srv_register_files a u n =
     bnd (malloc_c a (4 * n)) (\<lambda>files.
       if files = NULL then ret 1
       else bnd (malloc_c a (4 * n)) (\<lambda>p.
         if p = NULL then ret 1
         else andthen (modify (\<lambda>s. s\<lparr>registered_files := replicate n (-1)\<rparr>))
          (bnd (register_files_c u (replicate n (-1))) (\<lambda>r. if r < 0 then ret r else ret 0))))"

definition init_registerfiles :: "alloc \<Rightarrow> uring \<Rightarrow> ('x srv_scheme, int) comp" where
  "init_registerfiles a u =
     bnd (getrlimit_c a) (\<lambda>(r, rlim_max).
       if r < 0 then ret r else srv_register_files a u (min rlim_max 32768))"

definition srv_register_slot :: "uring \<Rightarrow> int \<Rightarrow> ('x srv_scheme, unit) comp" where
  "srv_register_slot u fd =
     bnd (register_files_update_c u fd fd) (\<lambda>r.
       if r < 0 then exit_with 1
       else bnd get_state (\<lambda>s. write_arr (registered_files s) fd fd (\<lambda>xs.
         modify (\<lambda>s. s\<lparr>registered_files := xs\<rparr>))))"

text \<open>The listening socket is registered before the loop; \<^verbatim>\<open>return ret\<close> in \<^verbatim>\<open>main\<close> leaves the process.\<close>

definition srv_register_listen :: "('x srv_scheme, int) comp \<Rightarrow> uring \<Rightarrow> int \<Rightarrow> ('x srv_scheme, unit) comp" where
  "srv_register_listen init u sock_listen_fd = bnd get_state (\<lambda>s.
     if registerfiles s then
       bnd init (\<lambda>r. if r \<noteq> 0 then exit_with r else srv_register_slot u sock_listen_fd)
     else ret ())"

text \<open>A connection is registered when its number is used for the first time.\<close>

definition srv_register_conn :: "uring \<Rightarrow> int \<Rightarrow> ('x srv_scheme, unit) comp" where
  "srv_register_conn u sock_conn_fd = bnd get_state (\<lambda>s.
     if registerfiles s then
       bnd (read_arr (registered_files s) sock_conn_fd) (\<lambda>f.
         if f = -1 then srv_register_slot u sock_conn_fd else ret ())
     else ret ())"

text \<open>\<^verbatim>\<open>if (registerfiles) sqe->flags |= IOSQE_FIXED_FILE\<close>.\<close>

definition fixed_flag :: "bool \<Rightarrow> sqe \<Rightarrow> sqe" where
  "fixed_flag b q = (if b then q\<lparr>sq_flags := sq_flags q OR IOSQE_FIXED_FILE\<rparr> else q)"

lemma extends_register [extends_intros]:
  "extends (srv_register_slot u fd)" "extends (srv_register_conn u fd)"
  unfolding srv_register_conn_def srv_register_slot_def register_files_update_c_def
  by (intro extends_intros; simp)+

lemma fixed_flag_sel [simp]:
  "sq_op (fixed_flag b q) = sq_op q" "sq_user_data (fixed_flag b q) = sq_user_data q"
  by (simp_all add: fixed_flag_def)

text \<open>Registering a connection within the table touches only the table and the log.\<close>

lemma wp_register_conn:
  fixes s :: "'x srv_scheme"
  assumes "registerfiles s \<longrightarrow> in_bounds (registered_files s) fd"
    and "\<And>es fs. quiet es \<Longrightarrow> length fs = length (registered_files s) \<Longrightarrow> P () (s\<lparr>log := log s @ es, registered_files := fs\<rparr>)"
  shows "wp (srv_register_conn u fd) (only F P) s"
proof -
  have "P () s"
    using assms(2) [of "[]" "registered_files s"] by simp
  moreover have "P () (s\<lparr>log := log s @ [Ev_register_files_update fd fd r], registered_files := (registered_files s)[nat fd := fd]\<rparr>)" for r
    by (rule assms(2)) simp_all
  ultimately show ?thesis
    using assms(1) by (simp add: srv_register_conn_def srv_register_slot_def wp_simps host_defs)
qed

section \<open>What the start-up keeps\<close>

text \<open>\<^verbatim>\<open>malloc\<close> does not hand out objects of more than \<^verbatim>\<open>PTRDIFF_MAX\<close> bytes.\<close>

definition alloc_bounded :: "alloc \<Rightarrow> bool" where
  "alloc_bounded a \<longleftrightarrow> (\<forall>h n. a_malloc a h n \<longrightarrow> n < 2 ^ 63)"

lemma to_size_alloc:
  assumes "alloc_bounded a" "a_malloc a h (m * to_size n)" "0 < m" "is_i32 n"
  shows "0 \<le> n" "to_size n = nat n"
proof -
  have "1 * to_size n \<le> m * to_size n"
    using assms(3) by (intro mult_le_mono1) simp
  then have "to_size n < 2 ^ 63"
    using assms(1,2) unfolding alloc_bounded_def mult_1 by (blast intro: le_less_trans)
  moreover have "to_size n = nat (n + 2 ^ 64)" if "n < 0"
    using that assms(4) mod_pos_pos_trivial [of "n + 2 ^ 64" "2 ^ 64"] by (simp add: to_size_def is_i32_def)
  ultimately show "0 \<le> n"
    using assms(4) by (auto simp: is_i32_def intro: ccontr)
  then show "to_size n = nat n"
    using assms(4) by (simp add: to_size_def is_i32_def)
qed

lemma ex_alloc_max_bounded [simp]: "alloc_bounded ex_alloc_max"
  by (simp add: alloc_bounded_def)

lemma wp_srv_getopt:
  "wp (srv_getopt argv) (on_ok (\<lambda>_ t. log t = log s \<and> bufs t = bufs s \<and> srv.more t = srv.more s)) s"
proof -
  let ?I = "\<lambda>t. log t = log s \<and> bufs t = bufs s \<and> srv.more t = srv.more s"
  have opt: "wp (srv_option p) (on_ok (\<lambda>_. ?I)) t" if "?I t" for p t
    using that by (simp add: srv_option_def wp_simps split: opt.split)
  show ?thesis
    unfolding srv_getopt_def case_prod_beta
    by (rule wp_andthen_ok [OF wp_for_list_ok [where I = ?I]]) (simp_all add: opt wp_ret)
qed

lemma wp_srv_plain_port:
  "wp (srv_plain_port argv) (on_ok (\<lambda>_ t. log t = log s \<and> bufs t = bufs s \<and> srv.more t = srv.more s)) s"
  by (simp add: srv_plain_port_def wp_simps Let_def)

lemma wp_srv_args:
  "wp (srv_args argv) (on_ok (\<lambda>_ t. log t = log s \<and> bufs t = bufs s \<and> srv.more t = srv.more s)) s"
  unfolding srv_args_def
  by (rule wp_bnd_ok [OF wp_srv_getopt]) (simp add: wp_simps srv_plain_port_def Let_def)

lemma wp_srv_reserve:
  "wp srv_reserve (on_ok (\<lambda>_ t. log t = log s \<and> bufs t = bufs s \<and> srv.more t = srv.more s \<and> is_i32 (max_connections t))) s"
  by (simp add: srv_reserve_def wp_simps)

text \<open>\<open>n\<close> buffers more, and nothing but quiet events.\<close>

definition more_bufs :: "nat \<Rightarrow> 'x srv_scheme \<Rightarrow> 'x srv_scheme \<Rightarrow> bool" where
  "more_bufs n s t \<longleftrightarrow> (\<exists>es bs. t = s\<lparr>log := log s @ es, bufs := bufs s @ bs\<rparr> \<and> quiet es \<and> length bs = n)"

lemma more_bufs_event: "quiet [e] \<Longrightarrow> more_bufs 0 s (s\<lparr>log := log s @ [e]\<rparr>)"
  unfolding more_bufs_def by (rule exI [of _ "[e]"], rule exI [of _ "[]"]) simp

lemma more_bufs_buf: "quiet [e] \<Longrightarrow> more_bufs (Suc 0) s (s\<lparr>log := log s @ [e], bufs := bufs s @ [b]\<rparr>)"
  unfolding more_bufs_def by (rule exI [of _ "[e]"], rule exI [of _ "[b]"]) simp

lemma more_bufs_trans: "more_bufs m s t \<Longrightarrow> more_bufs n t t' \<Longrightarrow> more_bufs (m + n) s t'"
proof -
  assume "more_bufs m s t" "more_bufs n t t'"
  then obtain es bs es' bs' where "t = s\<lparr>log := log s @ es, bufs := bufs s @ bs\<rparr>" "quiet es" "length bs = m"
    "t' = t\<lparr>log := log t @ es', bufs := bufs t @ bs'\<rparr>" "quiet es'" "length bs' = n"
    unfolding more_bufs_def by blast
  then show ?thesis
    unfolding more_bufs_def by (intro exI [of _ "es @ es'"] exI [of _ "bs @ bs'"]) simp
qed

lemma more_bufs_keeps:
  assumes "more_bufs n s t"
  shows "max_connections t = max_connections s" "registerfiles t = registerfiles s"
    "registered_files t = registered_files s" "srv.more t = srv.more s" "length (bufs t) = length (bufs s) + n"
    "quiet (log s) \<Longrightarrow> quiet (log t)"
  using assms by (auto simp: more_bufs_def)

lemma wp_srv_alloc_buf: "wp (srv_alloc_buf a p) (on_ok (\<lambda>_. more_bufs (Suc 0) s)) s"
  by (simp add: srv_alloc_buf_def wp_simps malloc_c_def more_bufs_buf)

lemma wp_alloc_buf_list: "wp (for_list (\<lambda>i. srv_alloc_buf a p) xs) (on_ok (\<lambda>_. more_bufs (length xs) s)) s"
proof (induction xs arbitrary: s)
  case Nil
  have "more_bufs 0 s s"
    unfolding more_bufs_def by (rule exI [of _ "[]"], rule exI [of _ "[]"]) simp
  then show ?case by (simp add: wp_simps)
next
  case (Cons i xs)
  show ?case
    unfolding for_list.simps
  proof (rule wp_bnd_ok [OF wp_srv_alloc_buf])
    show "wp (for_list (\<lambda>i. srv_alloc_buf a p) xs) (on_ok (\<lambda>_. more_bufs (length (i # xs)) s)) t"
      if "more_bufs (Suc 0) s t" for t
      using Cons.IH [of t]
      by (rule wp_mono) (use more_bufs_trans [OF that] in \<open>auto simp: on_ok_def split: outcome.splits\<close>)
  qed
qed

lemma wp_srv_alloc_bufs:
  "wp (srv_alloc_bufs a) (on_ok (\<lambda>_. more_bufs (nat (max_connections s)) s)) s"
proof -
  have "wp (for_list (\<lambda>i. srv_alloc_buf a p) [0..max_connections s - 1])
      (on_ok (\<lambda>_. more_bufs (nat (max_connections s)) s)) t" if "more_bufs 0 s t" for p t
    using wp_alloc_buf_list [where s = t and xs = "[0..max_connections s - 1]"]
    by (rule wp_mono) (use more_bufs_trans [OF that] in \<open>auto simp: on_ok_def split: outcome.splits\<close>)
  then show ?thesis
    by (simp add: srv_alloc_bufs_def wp_simps malloc_c_def more_bufs_event)
qed

text \<open>Quiet events, and changes of the table of registered files only.\<close>

definition more_regs :: "'x srv_scheme \<Rightarrow> 'x srv_scheme \<Rightarrow> bool" where
  "more_regs s t \<longleftrightarrow> (\<exists>es fs. t = s\<lparr>log := log s @ es, registered_files := fs\<rparr> \<and> quiet es)"

lemma more_regsI:
  assumes "quiet es"
  shows "more_regs s (s\<lparr>log := log s @ es, registered_files := fs\<rparr>)"
    "more_regs s (s\<lparr>registered_files := fs, log := log s @ es\<rparr>)"
  unfolding more_regs_def using assms by (intro exI [of _ es] exI [of _ fs]; simp)+

lemma more_regs_log: "quiet es \<Longrightarrow> more_regs s (s\<lparr>log := log s @ es\<rparr>)"
  using more_regsI(1) [of es s "registered_files s"] by simp

lemma more_regs_refl: "more_regs s s"
  using more_regs_log [of "[]" s] by simp

lemma more_regs_trans: "more_regs s t \<Longrightarrow> more_regs t t' \<Longrightarrow> more_regs s t'"
  unfolding more_regs_def by (elim exE conjE, rule exI [of _ "_ @ _"], rule exI) simp

lemma more_regs_keeps:
  assumes "more_regs s t"
  shows "max_connections t = max_connections s" "srv.more t = srv.more s" "bufs t = bufs s"
    "quiet (log s) \<Longrightarrow> quiet (log t)"
  using assms by (auto simp: more_regs_def)

lemma wp_srv_listen: "wp (srv_listen k ty) (on_ok (\<lambda>_. more_regs s)) s"
  by (auto simp: srv_listen_def wp_simps host_defs more_regs_log)

lemma wp_srv_init_ring: "wp (srv_init_ring u n fl) (on_ok (\<lambda>_. more_regs s)) s"
  by (auto simp: srv_init_ring_def wp_simps host_defs more_regs_log split: prod.split)

lemma wp_init_registerfiles: "wp (init_registerfiles a u) (on_ok (\<lambda>_. more_regs s)) s"
  by (auto simp: init_registerfiles_def srv_register_files_def wp_simps host_defs getrlimit_c_def malloc_c_def
      more_regsI more_regs_log split: prod.split)

lemma wp_srv_register_slot: "wp (srv_register_slot u fd) (on_ok (\<lambda>_. more_regs s)) s"
  by (auto simp: srv_register_slot_def wp_simps host_defs more_regsI)

lemma wp_srv_register_listen:
  assumes "\<And>s. wp init (on_ok (\<lambda>_. more_regs s)) s"
  shows "wp (srv_register_listen init u fd) (on_ok (\<lambda>_. more_regs s)) s"
proof -
  have "wp (if r \<noteq> 0 then exit_with r else srv_register_slot u fd) (on_ok (\<lambda>_. more_regs s)) t"
    if "more_regs s t" for r t
  proof (cases "r = 0")
    case True
    then have "wp (srv_register_slot u fd) (on_ok (\<lambda>_. more_regs s)) t"
      by (intro wp_mono [OF wp_srv_register_slot])
        (use more_regs_trans [OF that] in \<open>auto simp: on_ok_def split: outcome.splits\<close>)
    with True show ?thesis by simp
  qed (simp add: wp_exit)
  then have "wp (bnd init (\<lambda>r. if r \<noteq> 0 then exit_with r else srv_register_slot u fd)) (on_ok (\<lambda>_. more_regs s)) s"
    by (intro wp_bnd_ok [OF assms])
  then show ?thesis
    by (auto simp: srv_register_listen_def wp_bnd [of get_state] wp_get_state wp_ret more_regs_refl)
qed

section \<open>An example command line\<close>

definition ex_argv :: "string list" where
  "ex_argv = [''server'', ''-p'', ''8080'', ''-n'', ''-26'']"

lemma ex_getopt: "getopt_all ''p:fn:l:h'' ex_argv = ([Opt_arg CHR ''p'' ''8080'', Opt_arg CHR ''n'' ''-26''], ex_argv)"
  by code_simp

lemma ex_atoi: "atoi ''8080'' = 8080" "atoi ''-26'' = -26"
  by code_simp+

lemma ex_srv_args:
  "srv_args ex_argv s = (Ok (), s\<lparr>portno := 8080, max_connections := -26, msg_len := if msg_len s = 0 then 128 else msg_len s\<rparr>)"
  by (simp add: srv_args_def srv_getopt_def ex_getopt comp_simps srv_option_def ex_atoi)

lemma ex_upto: "[0..5] = [0, 1, 2, 3, 4, 5::int]"
  by code_simp

lemma ex_to_size: "to_size 6 = 6" "to_size 2046 = 2046" "to_size 4 = 4"
  by (simp_all add: to_size_def)

lemmas ex_srv_defs =
  srv_alloc_bufs_def srv_alloc_buf_def srv_reserve_def srv_init_ring_def srv_listen_def srv_register_listen_def
  srv_register_conn_def fixed_flag_def zero_conn_def srv_BACKLOG_def
  ex_srv_args ex_upto ex_to_size malloc_c_def new_block_def host_defs is_i32_def in_bounds_def read_arr_def write_arr_def cqe_defs

end
