(* ===== verification/Slot_Table.thy ===== *)
theory Slot_Table
  imports Server_Args
begin

text \<open>
  Servers that keep one table entry for each descriptor and give its address as user data
  to the one request the descriptor has in flight (v1 and v2). The invariant ties the table,
  the requests in flight and the open connections together; a completion changes it in one
  of three ways: a connection is added, a connection ends, or its next request is queued.
\<close>

section \<open>Slots\<close>

definition slot :: "int \<Rightarrow> udata" where
  "slot fd = Ref (Obj ''conns'' fd)"

lemma slot_eq [simp]: "slot a = slot b \<longleftrightarrow> a = b"
  by (simp add: slot_def)

lemma inj_slot: "inj slot"
  by (simp add: inj_def)

text \<open>Open connections: what the accept requests of the listening socket returned, until it is closed.\<close>

definition slot_step :: "int \<Rightarrow> int set \<Rightarrow> event \<Rightarrow> int set" where
  "slot_step lfd C e = (case e of
      Ev_cqe c \<Rightarrow> if cq_user_data c = slot lfd \<and> 0 \<le> cq_res c then insert (cq_res c) C else C
    | Ev_close fd \<Rightarrow> C - {fd}
    | _ \<Rightarrow> C)"

definition open_conns :: "int \<Rightarrow> event list \<Rightarrow> int set" where
  "open_conns lfd h = foldl (slot_step lfd) {} h"

lemma open_conns_append [simp]: "open_conns lfd (g @ h) = foldl (slot_step lfd) (open_conns lfd g) h"
  by (simp add: open_conns_def)

text \<open>The type that the request functions write into the entry.\<close>

fun op_type :: "sqe_op \<Rightarrow> u32 option" where
  "op_type (Op_accept _ _ _ _) = Some srv_ACCEPT"
| "op_type (Op_recv _ _ _ _) = Some srv_READ"
| "op_type (Op_send _ _ _ _) = Some srv_WRITE"
| "op_type _ = None"

lemma srv_types [simp]:
  "srv_ACCEPT \<noteq> srv_READ" "srv_ACCEPT \<noteq> srv_WRITE" "srv_READ \<noteq> srv_ACCEPT" "srv_READ \<noteq> srv_WRITE"
  "srv_WRITE \<noteq> srv_ACCEPT" "srv_WRITE \<noteq> srv_READ"
  by (simp_all add: srv_ACCEPT_def srv_READ_def srv_WRITE_def)

text \<open>
  The entry of a descriptor describes its request: \<open>P fd op\<close> is what a server asks of the
  operations it queues for \<open>fd\<close>.
\<close>

definition entry_ok :: "(int \<Rightarrow> sqe_op \<Rightarrow> bool) \<Rightarrow> int \<Rightarrow> tconn list \<Rightarrow> event list \<Rightarrow> int \<Rightarrow> bool" where
  "entry_ok P lfd conns h fd \<longleftrightarrow> in_bounds conns fd \<and> is_i32 fd \<and>
     (case last_op h (slot fd) of None \<Rightarrow> False | Some op \<Rightarrow>
        P fd op \<and> (op_type op = Some srv_ACCEPT \<longleftrightarrow> fd = lfd) \<and>
        op_type op = Some (tc_type (conns ! nat fd)) \<and> tc_fd (conns ! nat fd) = to_u32 fd)"

definition slots_ok :: "(int \<Rightarrow> sqe_op \<Rightarrow> bool) \<Rightarrow> int \<Rightarrow> tconn list \<Rightarrow> event list \<Rightarrow> bool" where
  "slots_ok P lfd conns h \<longleftrightarrow> finite (open_conns lfd h) \<and> lfd \<notin> open_conns lfd h \<and>
     inflight h = image_mset slot (mset_set (insert lfd (open_conns lfd h))) \<and>
     (\<forall>fd \<in> insert lfd (open_conns lfd h). entry_ok P lfd conns h fd)"

text \<open>What the kernel promises of a completion, for a table of \<open>n\<close> entries.\<close>

definition slot_kernel :: "int \<Rightarrow> nat \<Rightarrow> event list \<Rightarrow> cqe \<Rightarrow> bool" where
  "slot_kernel lfd n h c \<longleftrightarrow> answers h c \<and>
     (cq_user_data c = slot lfd \<longrightarrow>
        0 \<le> cq_res c \<and> cq_res c < int n \<and> is_i32 (cq_res c) \<and> cq_res c \<noteq> lfd \<and> cq_res c \<notin> open_conns lfd h)"

lemma slots_okD:
  assumes "slots_ok P lfd conns h"
  shows "finite (open_conns lfd h)" "lfd \<notin> open_conns lfd h"
    "inflight h = image_mset slot (mset_set (insert lfd (open_conns lfd h)))"
    "fd \<in> insert lfd (open_conns lfd h) \<Longrightarrow> entry_ok P lfd conns h fd"
  using assms unfolding slots_ok_def by blast+

lemma slot_of_completion:
  assumes "slots_ok P lfd conns h" "answers h c"
  obtains fd where "cq_user_data c = slot fd" "fd \<in> insert lfd (open_conns lfd h)"
    "entry_ok P lfd conns h fd"
proof -
  have "cq_user_data c \<in># image_mset slot (mset_set (insert lfd (open_conns lfd h)))"
    using assms slots_okD(3) [OF assms(1)] by (simp add: answers_def)
  then obtain fd where "cq_user_data c = slot fd" "fd \<in> insert lfd (open_conns lfd h)"
    using slots_okD(1) [OF assms(1)] by (auto simp del: insert_iff)
  with that slots_okD(4) [OF assms(1)] show thesis by blast
qed

section \<open>The three changes\<close>

lemma slots_add:
  assumes inv: "slots_ok P lfd conns h" and fd: "fd \<noteq> lfd" "fd \<notin> open_conns lfd h"
    and fl: "inflight h' = add_mset (slot fd) (inflight h)" and op: "open_conns lfd h' = insert fd (open_conns lfd h)"
    and new: "entry_ok P lfd conns' h' fd" "entry_ok P lfd conns' h' lfd"
    and keep: "\<And>g. g \<in> open_conns lfd h \<Longrightarrow> entry_ok P lfd conns h g \<Longrightarrow> entry_ok P lfd conns' h' g"
  shows "slots_ok P lfd conns' h'"
  using slots_okD [OF inv] assms unfolding slots_ok_def
  by (auto simp: insert_commute [of lfd fd] simp del: mset_set.insert) (simp add: insert_commute)

lemma slots_remove:
  assumes inv: "slots_ok P lfd conns h" and fd: "fd \<in> open_conns lfd h"
    and fl: "inflight h' = inflight h - {#slot fd#}" and op: "open_conns lfd h' = open_conns lfd h - {fd}"
    and keep: "\<And>g. entry_ok P lfd conns h g \<Longrightarrow> entry_ok P lfd conns' h' g"
  shows "slots_ok P lfd conns' h'"
proof -
  have "fd \<noteq> lfd"
    using slots_okD(2) [OF inv] fd by blast
  then have "insert lfd (open_conns lfd h) = insert fd (insert lfd (open_conns lfd h - {fd}))"
    using fd by blast
  then have "inflight h' = image_mset slot (mset_set (insert lfd (open_conns lfd h - {fd})))"
    using slots_okD(1,3) [OF inv] fl \<open>fd \<noteq> lfd\<close> by (simp add: mset_set.insert_remove)
  then show ?thesis
    using slots_okD [OF inv] op keep unfolding slots_ok_def by auto
qed

lemma slots_next:
  assumes inv: "slots_ok P lfd conns h" and fd: "fd \<in> insert lfd (open_conns lfd h)"
    and fl: "inflight h' = inflight h" and op: "open_conns lfd h' = open_conns lfd h"
    and new: "entry_ok P lfd conns' h' fd"
    and keep: "\<And>g. g \<noteq> fd \<Longrightarrow> entry_ok P lfd conns h g \<Longrightarrow> entry_ok P lfd conns' h' g"
  shows "slots_ok P lfd conns' h'"
proof -
  have "entry_ok P lfd conns' h' g" if "g \<in> insert lfd (open_conns lfd h)" for g
    using new keep [of g] slots_okD(4) [OF inv that] by (cases "g = fd") auto
  then show ?thesis
    using slots_okD(1-3) [OF inv] fl op unfolding slots_ok_def by auto
qed

lemma entry_ok_other:
  assumes "last_op h' (slot g) = last_op h (slot g)" "length conns' = length conns" "conns' ! nat g = conns ! nat g"
  shows "entry_ok P lfd conns' h' g = entry_ok P lfd conns h g"
  unfolding entry_ok_def in_bounds_def assms ..

lemma entry_okD:
  assumes "entry_ok P lfd conns h fd"
  obtains op where "last_op h (slot fd) = Some op" "P fd op" "op_type op = Some srv_ACCEPT \<longleftrightarrow> fd = lfd"
    "op_type op = Some (tc_type (conns ! nat fd))" "tc_fd (conns ! nat fd) = to_u32 fd"
    "in_bounds conns fd" "is_i32 fd"
  using assms by (auto simp: entry_ok_def split: option.splits)

lemma sint_to_u32 [simp]: "is_i32 fd \<Longrightarrow> sint (to_u32 fd) = fd"
  using to_i32_id [of fd] by (simp add: to_i32_def to_u32_def)

lemma to_size_res: "0 < r \<Longrightarrow> is_i32 r \<Longrightarrow> to_size r = nat r"
  by (simp add: to_size_def is_i32_def)

text \<open>The entry and the operation of a completion, by the type the server reads.\<close>

lemma completion_cases:
  assumes inv: "slots_ok P lfd conns h" and c: "answers h c"
  obtains (accepted) "cq_user_data c = slot lfd" "tc_type (conns ! nat lfd) = srv_ACCEPT" "in_bounds conns lfd"
      "\<exists>a b l fl. last_op h (slot lfd) = Some (Op_accept a b l fl)"
    | (received) fd p n fl f where "cq_user_data c = slot fd" "fd \<in> open_conns lfd h" "fd \<noteq> lfd"
      "conns ! nat fd = \<lparr>tc_fd = to_u32 fd, tc_type = srv_READ\<rparr>" "in_bounds conns fd" "is_i32 fd"
      "last_op h (slot fd) = Some (Op_recv f p n fl)" "P fd (Op_recv f p n fl)"
    | (written) fd p n fl f where "cq_user_data c = slot fd" "fd \<in> open_conns lfd h" "fd \<noteq> lfd"
      "conns ! nat fd = \<lparr>tc_fd = to_u32 fd, tc_type = srv_WRITE\<rparr>" "in_bounds conns fd" "is_i32 fd"
      "last_op h (slot fd) = Some (Op_send f p n fl)"
proof -
  obtain fd where fd: "cq_user_data c = slot fd" "fd \<in> insert lfd (open_conns lfd h)" "entry_ok P lfd conns h fd"
    using slot_of_completion [OF inv c] .
  from fd(3) obtain op where op: "last_op h (slot fd) = Some op" "P fd op" "op_type op = Some srv_ACCEPT \<longleftrightarrow> fd = lfd"
    "op_type op = Some (tc_type (conns ! nat fd))" "tc_fd (conns ! nat fd) = to_u32 fd" "in_bounds conns fd" "is_i32 fd"
    by (rule entry_okD)
  have eq: "conns ! nat fd = \<lparr>tc_fd = to_u32 fd, tc_type = tc_type (conns ! nat fd)\<rparr>"
    using op(5) by simp
  show thesis
  proof (cases op)
    case (Op_accept a b l fl)
    with op fd(1) accepted show ?thesis by simp
  next
    case (Op_recv f p n fl)
    with op fd eq received show ?thesis by (metis insert_iff op_type.simps(2) option.inject srv_types(3))
  next
    case (Op_send f p n fl)
    with op fd eq written show ?thesis by (metis insert_iff op_type.simps(3) option.inject srv_types(5))
  qed (use op in simp_all)
qed

section \<open>The changes along the log\<close>

lemma quiet_steps:
  assumes "quiet es"
  shows "foldl last_op_step L es = L" "foldl (slot_step lfd) C es = C" "foldl inflight_step M es = M"
    "foldl recv_step R es = R" "ring_sends es = []" "seen es = []"
proof -
  have e: "last_op_step L e = L" "slot_step lfd C e = C" "inflight_step M e = M" "recv_step R e = R"
    if "sqe_of e = None" "cqe_of e = None" "\<forall>fd. e \<noteq> Ev_close fd" for e L C M R
    using that by (cases e; simp add: last_op_step_def slot_step_def inflight_step_def recv_step_def)+
  from assms show "foldl last_op_step L es = L" "foldl (slot_step lfd) C es = C" "foldl inflight_step M es = M"
    "foldl recv_step R es = R" "ring_sends es = []" "seen es = []"
    by (induction es) (simp_all add: e ring_sends_Cons)
qed

lemma quiet_log:
  assumes "quiet es"
  shows "cqes_ok K (h @ es) \<longleftrightarrow> cqes_ok K h" "inflight (h @ es) = inflight h"
    "slots_ok P lfd conns (h @ es) \<longleftrightarrow> slots_ok P lfd conns h"
proof -
  have "ok_from K pre es" "queued es = []" for pre
    using assms by (induction es arbitrary: pre) simp_all
  then show "cqes_ok K (h @ es) \<longleftrightarrow> cqes_ok K h" and fl: "inflight (h @ es) = inflight h"
    using quiet_steps(6) [OF assms] by (simp_all add: cqes_ok_append inflight_def)
  have "entry_ok P lfd conns (h @ es) = entry_ok P lfd conns h"
    by (intro ext entry_ok_other) (simp_all add: quiet_steps [OF assms])
  then show "slots_ok P lfd conns (h @ es) \<longleftrightarrow> slots_ok P lfd conns h"
    unfolding slots_ok_def fl open_conns_append quiet_steps(2) [OF assms] by simp
qed

lemma slots_closed:
  assumes inv: "slots_ok P lfd conns h" and ok: "cqes_ok answers h" "answers h c"
    and fd: "cq_user_data c = slot fd" "fd \<in> open_conns lfd h" "fd \<noteq> lfd" and es: "quiet es"
  shows "slots_ok P lfd conns (h @ Ev_cqe c # es @ [Ev_close fd])"
proof -
  let ?es = "es @ [Ev_close fd]"
  obtain M where M: "inflight h = add_mset (slot fd) M" "inflight (h @ Ev_cqe c # ?es) = M"
    using completion_inflight [OF ok, of ?es] fd(1) es
    by (auto simp: quiet_steps [OF es] inflight_step_def)
  show ?thesis
    by (rule slots_remove [OF inv fd(2)])
      (use fd M in \<open>simp_all add: quiet_steps [OF es] slot_step_def entry_ok_def last_op_step_def\<close>)
qed

lemma entry_ok_new:
  assumes "in_bounds conns fd" "is_i32 fd" "last_op h (slot fd) = Some op" "P fd op" "op_type op = Some ty"
    and "ty = srv_ACCEPT \<longleftrightarrow> fd = lfd" and "conns ! nat fd = \<lparr>tc_fd = to_u32 fd, tc_type = ty\<rparr>"
  shows "entry_ok P lfd conns h fd"
  using assms by (simp add: entry_ok_def)

lemma entry_ok_update:
  assumes "entry_ok P lfd conns h g" "g \<noteq> fd" "in_bounds conns fd" "last_op h' (slot g) = last_op h (slot g)"
  shows "entry_ok P lfd (conns[nat fd := e]) h' g"
proof -
  have "nat g \<noteq> nat fd"
    using assms(1-3) by (auto simp: entry_ok_def in_bounds_def)
  then show ?thesis
    using assms by (subst entry_ok_other) simp_all
qed

lemma slots_rearmed:
  assumes inv: "slots_ok P lfd conns h" and ok: "cqes_ok answers h" "answers h c"
    and fd: "cq_user_data c = slot fd" "fd \<in> open_conns lfd h" "fd \<noteq> lfd" "in_bounds conns fd" "is_i32 fd"
    and q: "sq_user_data q = slot fd" "P fd (sq_op q)" "op_type (sq_op q) = Some ty" "ty \<noteq> srv_ACCEPT"
    and es: "quiet es"
  shows "slots_ok P lfd (conns[nat fd := \<lparr>tc_fd = to_u32 fd, tc_type = ty\<rparr>]) (h @ Ev_cqe c # es @ [Ev_sqe q])"
    (is "slots_ok P lfd ?cs ?h")
proof -
  obtain M where M: "inflight h = add_mset (slot fd) M" "inflight ?h = add_mset (slot fd) M"
    using completion_inflight [OF ok, of "es @ [Ev_sqe q]"] fd(1) q(1)
    by (auto simp: quiet_steps [OF es] inflight_step_def)
  have "entry_ok P lfd ?cs ?h fd"
    by (rule entry_ok_new [where op = "sq_op q" and ty = ty])
      (use fd q in \<open>auto simp: in_bounds_def quiet_steps [OF es] last_op_step_def\<close>)
  then show ?thesis
    by (rule slots_next [OF inv, rotated 3])
      (use fd q M in \<open>auto simp: quiet_steps [OF es] slot_step_def last_op_step_def intro: entry_ok_update\<close>)
qed

lemma slots_accepted:
  assumes inv: "slots_ok P lfd conns h" and ok: "cqes_ok answers h" "slot_kernel lfd m h c" and m: "m \<le> length conns"
    and c: "cq_user_data c = slot lfd"
    and a: "sq_user_data a = slot lfd" "P lfd (sq_op a)" "op_type (sq_op a) = Some srv_ACCEPT"
    and r: "sq_user_data r = slot (cq_res c)" "P (cq_res c) (sq_op r)" "op_type (sq_op r) = Some ty" "ty \<noteq> srv_ACCEPT"
    and es: "quiet es" "qs = [Ev_sqe a, Ev_sqe r] \<or> qs = [Ev_sqe r, Ev_sqe a]"
    and cs: "cs = conns[nat lfd := \<lparr>tc_fd = to_u32 lfd, tc_type = srv_ACCEPT\<rparr>,
      nat (cq_res c) := \<lparr>tc_fd = to_u32 (cq_res c), tc_type = ty\<rparr>]"
  shows "slots_ok P lfd cs (h @ Ev_cqe c # es @ qs)" (is "slots_ok P lfd cs ?h")
proof -
  have k: "0 \<le> cq_res c" "in_bounds conns (cq_res c)" "is_i32 (cq_res c)" "cq_res c \<noteq> lfd" "cq_res c \<notin> open_conns lfd h"
    "answers h c"
    using ok(2) c m by (auto simp: slot_kernel_def in_bounds_def)
  have l: "in_bounds conns lfd" "is_i32 lfd"
    using slots_okD(4) [OF inv, of lfd] by (auto simp: entry_ok_def)
  have ne: "nat lfd \<noteq> nat (cq_res c)"
    using k l by (auto simp: in_bounds_def)
  have "seen (es @ qs) = []"
    using es(2) quiet_steps(6) [OF es(1)] by auto
  then obtain M where M: "inflight h = add_mset (slot lfd) M" "inflight ?h = foldl inflight_step M (es @ qs)"
    using completion_inflight [OF ok(1) k(6), of "es @ qs"] c by metis
  have "foldl inflight_step M (es @ qs) = add_mset (slot (cq_res c)) (add_mset (slot lfd) M)"
    using es(2) a(1) r(1)
    by (elim disjE) (simp_all add: quiet_steps [OF es(1)] inflight_step_def add_mset_commute)
  with M have fl: "inflight ?h = add_mset (slot (cq_res c)) (inflight h)"
    by simp
  have lo: "last_op ?h = (last_op h)(slot lfd \<mapsto> sq_op a, slot (cq_res c) \<mapsto> sq_op r)"
    using es(2) a(1) r(1) k(4) by (auto simp: quiet_steps [OF es(1)] last_op_step_def)
  show ?thesis
  proof (rule slots_add [OF inv k(4,5)])
    show "entry_ok P lfd cs ?h (cq_res c)"
      by (rule entry_ok_new [where op = "sq_op r" and ty = ty])
        (use k l r ne cs lo in \<open>auto simp: in_bounds_def\<close>)
    show "entry_ok P lfd cs ?h lfd"
      by (rule entry_ok_new [where op = "sq_op a" and ty = srv_ACCEPT])
        (use k l a ne cs lo in \<open>auto simp: in_bounds_def\<close>)
    show "entry_ok P lfd cs ?h g" if "g \<in> open_conns lfd h" "entry_ok P lfd conns h g" for g
      unfolding cs by (intro entry_ok_update [of P lfd _ h]) (use that k l lo slots_okD(2) [OF inv] in \<open>auto simp: in_bounds_def\<close>)
    show "open_conns lfd ?h = insert (cq_res c) (open_conns lfd h)"
      using es(2) c k by (auto simp: quiet_steps [OF es(1)] slot_step_def)
  qed (rule fl)
qed

text \<open>After the start-up the accept request is the only one.\<close>

lemma quiet_start:
  assumes "quiet h"
  shows "open_conns lfd h = {}" "last_op h = (\<lambda>_. None)" "inflight h = {#}" "ring_sends h = []" "ring_receives h = []"
    "cqes_ok K h"
proof -
  show "open_conns lfd h = {}" "last_op h = (\<lambda>_. None)" "ring_sends h = []" "ring_receives h = []"
    by (simp_all add: open_conns_def last_op_def ring_receives_def quiet_steps [OF assms])
  have "queued h = []" "cqes_ok K h"
    using assms by (induction h rule: rev_induct) simp_all
  then show "inflight h = {#}" "cqes_ok K h"
    by (simp_all add: inflight_def)
qed

lemma slots_start:
  assumes h: "quiet h" and q: "sq_user_data q = slot lfd" "P lfd (sq_op q)" "op_type (sq_op q) = Some srv_ACCEPT"
    and lfd: "in_bounds conns lfd" "is_i32 lfd"
  shows "slots_ok P lfd (conns[nat lfd := \<lparr>tc_fd = to_u32 lfd, tc_type = srv_ACCEPT\<rparr>]) (h @ [Ev_sqe q])"
proof -
  have "entry_ok P lfd (conns[nat lfd := \<lparr>tc_fd = to_u32 lfd, tc_type = srv_ACCEPT\<rparr>]) (h @ [Ev_sqe q]) lfd"
    by (rule entry_ok_new [where op = "sq_op q" and ty = srv_ACCEPT])
      (use lfd q in \<open>auto simp: in_bounds_def last_op_step_def\<close>)
  then show ?thesis
    using q by (simp add: slots_ok_def quiet_start [OF h] slot_step_def inflight_sqe)
qed

end
