(* ===== verification/Uring_Echo_V1.thy ===== *)
theory Uring_Echo_V1
  imports Slot_Table
begin

text \<open>
  \<^verbatim>\<open>netpoll/echo/c-iouring-server/io_uring_echo_server_v1.c\<close>: the echo server with one
  buffer and one table entry for each descriptor, and optionally registered files.
\<close>

record v1 = srv +
  v1_conns :: "tconn list"
  v1_workcount :: int

text \<open>The static variables when the program starts.\<close>

definition v1_init :: v1 where
  "v1_init = \<lparr>log = [], portno = 0, registerfiles = False, max_connections = 4092, msg_len = 2046,
     registered_files = [], bufs = [], v1_conns = [], v1_workcount = 0\<rparr>"

text \<open>A thousand increments of a signed counter, at each completed receive.\<close>

definition v1_count :: "(v1, unit) comp" where
  "v1_count = bnd get_state (\<lambda>s.
     if is_i32 (v1_workcount s + 1) then modify (\<lambda>s. s\<lparr>v1_workcount := v1_workcount s + 1\<rparr>)
     else fail Int_Overflow)"

definition v1_workload :: "(v1, unit) comp" where
  "v1_workload = for_list (\<lambda>i. v1_count) [0..999]"

section \<open>Requests\<close>

definition v1_set_conn :: "int \<Rightarrow> u32 \<Rightarrow> (v1, unit) comp" where
  "v1_set_conn fd ty = bnd get_state (\<lambda>s.
     write_arr (v1_conns s) fd \<lparr>tc_fd = to_u32 fd, tc_type = ty\<rparr> (\<lambda>cs.
       modify (\<lambda>s. s\<lparr>v1_conns := cs\<rparr>)))"

definition v1_add_accept :: "uring \<Rightarrow> int \<Rightarrow> u32 \<Rightarrow> (v1, unit) comp" where
  "v1_add_accept u fd flags =
     bnd (get_sqe u) (\<lambda>q.
       andthen (v1_set_conn fd srv_ACCEPT)
      (bnd get_state (\<lambda>s. emit (Ev_sqe (u_set_data u (fixed_flag (registerfiles s) (u_set_flags u
         (u_prep u (Op_accept fd (Auto ''main'' ''client_addr'') (Auto ''main'' ''client_len'') 0) q) flags))
         (Obj ''conns'' fd))))))"

definition v1_add_socket_read :: "uring \<Rightarrow> int \<Rightarrow> nat \<Rightarrow> u32 \<Rightarrow> (v1, unit) comp" where
  "v1_add_socket_read u fd len flags =
     bnd get_state (\<lambda>s. bnd (read_arr (bufs s) fd) (\<lambda>buf.
       bnd (get_sqe u) (\<lambda>q.
         andthen (v1_set_conn fd srv_READ)
          (emit (Ev_sqe (u_set_data u (fixed_flag (registerfiles s) (u_set_flags u
             (u_prep u (Op_recv fd buf len 0) q) flags)) (Obj ''conns'' fd)))))))"

definition v1_add_socket_write :: "uring \<Rightarrow> int \<Rightarrow> nat \<Rightarrow> u32 \<Rightarrow> (v1, unit) comp" where
  "v1_add_socket_write u fd len flags =
     bnd get_state (\<lambda>s. bnd (read_arr (bufs s) fd) (\<lambda>buf.
       bnd (get_sqe u) (\<lambda>q.
         andthen (v1_set_conn fd srv_WRITE)
          (emit (Ev_sqe (u_set_data u (fixed_flag (registerfiles s) (u_set_flags u
             (u_prep u (Op_send fd buf len 0) q) flags)) (Obj ''conns'' fd)))))))"

lemmas v1_add_defs = v1_set_conn_def v1_add_accept_def v1_add_socket_read_def v1_add_socket_write_def

section \<open>The event loop\<close>

text \<open>\<^verbatim>\<open>io_uring_cqe_get_data\<close>: a pointer to an entry of the table.\<close>

definition v1_get_data :: "cqe \<Rightarrow> (v1, tconn) comp" where
  "v1_get_data cqe = bnd get_state (\<lambda>s. case cq_user_data cqe of
      Ref (Obj x i) \<Rightarrow> if x = ''conns'' then read_arr (v1_conns s) i else fail Wild_Write
    | _ \<Rightarrow> fail Wild_Write)"

text \<open>\<^verbatim>\<open>user_data->fd\<close> is unsigned and converted where a descriptor is expected.\<close>

definition v1_handle :: "uring \<Rightarrow> int \<Rightarrow> cqe \<Rightarrow> (v1, unit) comp" where
  "v1_handle u sock_listen_fd cqe =
     bnd (v1_get_data cqe) (\<lambda>user_data. bnd get_state (\<lambda>s.
       let type = tc_type user_data; fd = sint (tc_fd user_data) in
       if type = srv_ACCEPT then
         andthen io_uring_cqe_seen
        (andthen (srv_register_conn u (cq_res cqe))
        (andthen (v1_add_accept u sock_listen_fd 0)
          (v1_add_socket_read u (cq_res cqe) (to_size (msg_len s)) 0)))
       else if type = srv_READ then
         andthen v1_workload
        (if cq_res cqe \<le> 0 then
           andthen io_uring_cqe_seen (andthen (shutdown_c fd) (close_c fd))
         else andthen io_uring_cqe_seen (v1_add_socket_write u fd (to_size (cq_res cqe)) 0))
       else if type = srv_WRITE then
         andthen io_uring_cqe_seen (v1_add_socket_read u fd (to_size (msg_len s)) 0)
       else ret ()))"

text \<open>\<^verbatim>\<open>io_uring_peek_batch_cqe\<close> hands out up to \<^verbatim>\<open>BACKLOG\<close> completions.\<close>

definition v1_round :: "uring \<Rightarrow> int \<Rightarrow> (v1, unit) comp" where
  "v1_round u sock_listen_fd =
     bnd (io_uring_submit_and_wait u 1) (\<lambda>r.
       if r < 0 then exit_with 1
       else bnd (look (u_cqes u)) (\<lambda>cqes.
         for_list (\<lambda>c. andthen (emit (Ev_cqe c)) (v1_handle u sock_listen_fd c)) (take srv_BACKLOG cqes)))"

section \<open>Start-up\<close>

definition v1_alloc_conns :: "alloc \<Rightarrow> (v1, unit) comp" where
  "v1_alloc_conns a = bnd get_state (\<lambda>s.
     bnd (malloc_c a (8 * to_size (max_connections s))) (\<lambda>p.
       if p = NULL then exit_with 1
       else modify (\<lambda>s. s\<lparr>v1_conns := replicate (to_size (max_connections s)) zero_conn\<rparr>)))"

definition v1_start :: "sock \<Rightarrow> alloc \<Rightarrow> uring \<Rightarrow> string list \<Rightarrow> (v1, int) comp" where
  "v1_start k a u argv =
     andthen (srv_args argv)
    (andthen srv_reserve
    (andthen (v1_alloc_conns a)
    (andthen (srv_alloc_bufs a)
    (bnd (srv_listen k (SOCK_STREAM + SOCK_NONBLOCK)) (\<lambda>sock_listen_fd.
      andthen (srv_init_ring u 32768 0)
     (andthen (srv_register_listen (init_registerfiles a u) u sock_listen_fd)
     (andthen (v1_add_accept u sock_listen_fd 0) (ret sock_listen_fd))))))))"

definition v1_main :: "sock \<Rightarrow> alloc \<Rightarrow> uring \<Rightarrow> string list \<Rightarrow> nat \<Rightarrow> (v1, unit) comp" where
  "v1_main k a u argv n = bnd (v1_start k a u argv) (\<lambda>sock_listen_fd. rounds n (v1_round u sock_listen_fd))"

section \<open>The invariant\<close>

text \<open>
  The operations that the server queues for a descriptor are on its own buffer. The number
  \<open>n\<close> bounds the descriptors that the tables have room for.
\<close>

fun v1_op :: "ptr list \<Rightarrow> int \<Rightarrow> nat \<Rightarrow> sqe_op \<Rightarrow> bool" where
  "v1_op bs fd len (Op_accept f _ _ _) = (f = fd)"
| "v1_op bs fd len (Op_recv f p n _) = (f = fd \<and> p = bs ! nat fd \<and> n = len)"
| "v1_op bs fd len (Op_send f p n _) = (f = fd \<and> p = bs ! nat fd)"
| "v1_op bs fd len _ = False"

definition v1_inv :: "int \<Rightarrow> nat \<Rightarrow> v1 \<Rightarrow> bool" where
  "v1_inv lfd n s \<longleftrightarrow>
     n \<le> length (v1_conns s) \<and> length (bufs s) = length (v1_conns s) \<and> (registerfiles s \<longrightarrow> n \<le> length (registered_files s)) \<and>
     0 \<le> v1_workcount s \<and> v1_workcount s \<le> 1000 * int (length (seen (log s))) \<and> is_i32 (v1_workcount s) \<and>
     slots_ok (\<lambda>fd. v1_op (bufs s) fd (to_size (msg_len s))) lfd (v1_conns s) (log s) \<and>
     ring_sends (log s) = ring_receives (log s)"

definition v1_room :: "nat \<Rightarrow> v1 \<Rightarrow> bool" where
  "v1_room n s \<longleftrightarrow> n \<le> length (v1_conns s) \<and> (registerfiles s \<longrightarrow> n \<le> length (registered_files s))"

definition v1_kernel :: "int \<Rightarrow> nat \<Rightarrow> event list \<Rightarrow> cqe \<Rightarrow> bool" where
  "v1_kernel lfd n h c \<longleftrightarrow> slot_kernel lfd n h c \<and> is_i32 (cq_res c)"

text \<open>
  The counter of \<^verbatim>\<open>workload\<close> overflows at some point; \<open>ov\<close> says whether a run may come so far.
\<close>

definition v1_runs :: "bool \<Rightarrow> int \<Rightarrow> nat \<Rightarrow> event list \<Rightarrow> cqe \<Rightarrow> bool" where
  "v1_runs ov lfd n h c \<longleftrightarrow> v1_kernel lfd n h c \<and> (ov \<or> length (seen h) < 2147483)"

definition v1_faults :: "bool \<Rightarrow> fault set" where
  "v1_faults ov = (if ov then {Null_Deref, Int_Overflow} else {Null_Deref})"

lemma Null_Deref_v1 [simp]: "Null_Deref \<in> v1_faults ov"
  by (simp add: v1_faults_def)

lemma count_up:
  fixes s :: v1
  assumes "0 \<le> v1_workcount s" and "is_i32 (v1_workcount s)"
    and "is_i32 (v1_workcount s + int (length xs)) \<Longrightarrow> P () (s\<lparr>v1_workcount := v1_workcount s + int (length xs)\<rparr>)"
    and "\<not> is_i32 (v1_workcount s + int (length xs)) \<Longrightarrow> Int_Overflow \<in> F"
  shows "wp (for_list (\<lambda>i. v1_count) xs) (only F P) s"
  using assms
proof (induction xs arbitrary: s)
  case (Cons x xs)
  let ?s = "s\<lparr>v1_workcount := v1_workcount s + 1\<rparr>"
  have "wp (for_list (\<lambda>i. v1_count) xs) (only F P) ?s" if "is_i32 (v1_workcount s + 1)"
    by (rule Cons.IH) (use Cons.prems that in \<open>simp_all add: algebra_simps\<close>)
  moreover have "Int_Overflow \<in> F" if "\<not> is_i32 (v1_workcount s + 1)"
    using that Cons.prems by (simp add: is_i32_def)
  ultimately show ?case
    by (simp add: v1_count_def wp_simps)
qed (simp add: wp_simps)

lemma length_thousand: "int (length [0..999::int]) = 1000"
  by (simp del: upto_rec_numeral)

lemma wp_v1_workload:
  assumes "0 \<le> v1_workcount s" and "is_i32 (v1_workcount s)"
    and "is_i32 (v1_workcount s + 1000) \<Longrightarrow> P () (s\<lparr>v1_workcount := v1_workcount s + 1000\<rparr>)"
    and "\<not> is_i32 (v1_workcount s + 1000) \<Longrightarrow> Int_Overflow \<in> F"
  shows "wp v1_workload (only F P) s"
  unfolding v1_workload_def by (rule count_up, unfold length_thousand) (fact assms)+

lemma count_run:
  "0 \<le> v1_workcount s \<Longrightarrow> v1_workcount s + int (length xs) < 2 ^ 31 \<Longrightarrow>
    for_list (\<lambda>i. v1_count) xs s = (Ok (), s\<lparr>v1_workcount := v1_workcount s + int (length xs)\<rparr>)"
  by (induction xs arbitrary: s) (simp_all add: v1_count_def comp_simps is_i32_def algebra_simps)

lemma v1_workload_run:
  "0 \<le> v1_workcount s \<Longrightarrow> v1_workcount s + 1000 < 2 ^ 31 \<Longrightarrow>
    v1_workload s = (Ok (), s\<lparr>v1_workcount := v1_workcount s + 1000\<rparr>)"
  using count_run [of s "[0..999]"] unfolding v1_workload_def length_thousand .

lemma extends_v1_workload [extends_intros]: "extends v1_workload"
  unfolding v1_workload_def v1_count_def by (intro extends_intros) simp

lemma extends_v1 [extends_intros]:
  "extends (v1_set_conn fd ty)" "extends (v1_add_accept u fd fl)"
  "extends (v1_add_socket_read u fd n fl)" "extends (v1_add_socket_write u fd n fl)" "extends (v1_get_data c)"
  unfolding v1_add_defs v1_get_data_def by (intro extends_intros; simp)+

lemma extends_v1_handle [extends_intros]: "extends (v1_handle u lfd c)"
  unfolding v1_handle_def Let_def shutdown_c_def close_c_def io_uring_cqe_seen_def
  by (intro extends_intros)

lemma v1_kernel_answers: "cqes_ok (v1_runs ov lfd n) h \<Longrightarrow> cqes_ok answers h"
  by (erule cqes_ok_mono) (simp add: v1_runs_def v1_kernel_def slot_kernel_def)

lemmas v1_trace = last_op_step_def slot_step_def inflight_step_def recv_step_def ring_sends_Cons send_of_def

lemma v1_get_data_slot:
  "cq_user_data c = slot fd \<Longrightarrow> in_bounds (v1_conns s) fd \<Longrightarrow>
    wp (v1_get_data c) Q s = Q (Ok (v1_conns s ! nat fd)) s"
  by (simp add: v1_get_data_def slot_def wp_simps)

lemmas v1_run = v1_handle_def Let_def wp_simps v1_get_data_slot host_defs v1_add_defs in_bounds_def slot_def [symmetric]

lemma v1_invD:
  assumes "v1_inv lfd n s"
  shows "n \<le> length (v1_conns s)" "length (bufs s) = length (v1_conns s)" "registerfiles s \<longrightarrow> n \<le> length (registered_files s)"
    "slots_ok (\<lambda>fd. v1_op (bufs s) fd (to_size (msg_len s))) lfd (v1_conns s) (log s)" "ring_sends (log s) = ring_receives (log s)"
    "0 \<le> v1_workcount s" "v1_workcount s \<le> 1000 * int (length (seen (log s)))" "is_i32 (v1_workcount s)"
  using assms by (auto simp: v1_inv_def)

lemma v1_handle_accept:
  assumes u: "sqe_helpers u" and inv: "v1_inv lfd n s" and ok: "cqes_ok answers (log s)" "v1_kernel lfd n (log s) c"
    and F: "Null_Deref \<in> F"
    and c: "cq_user_data c = slot lfd" "tc_type (v1_conns s ! nat lfd) = srv_ACCEPT" "in_bounds (v1_conns s) lfd"
      "\<exists>a b l fl. last_op (log s) (slot lfd) = Some (Op_accept a b l fl)"
  shows "wp (v1_handle u lfd c) (only F (\<lambda>_. v1_inv lfd n)) (s\<lparr>log := log s @ [Ev_cqe c]\<rparr>)"
proof -
  have k: "0 \<le> cq_res c" "cq_res c < int n" "cq_res c \<noteq> lfd" "slot_kernel lfd n (log s) c"
    using ok(2) c(1) by (auto simp: v1_kernel_def slot_kernel_def)
  note i = v1_invD [OF inv]
  note slots = slots_accepted [OF i(4) ok(1) k(4) i(1) c(1)]
  have after_reg: "wp (andthen (v1_add_accept u lfd 0) (v1_add_socket_read u (cq_res c) (to_size (msg_len s)) 0))
      (only F (\<lambda>_. v1_inv lfd n))
      (s\<lparr>log := log s @ Ev_cqe c # Ev_cqe_seen # es, registered_files := fs\<rparr>)"
    if es: "quiet es" and fs: "length fs = length (registered_files s)" for es fs
    using F c i k fs slots [where es = "Ev_cqe_seen # es" and ty = srv_READ, OF _ _ _ _ _ _ _ _ disjI1 [OF refl] refl] es
    by (auto simp: wp_simps v1_add_defs in_bounds_def slot_def [symmetric] v1_inv_def v1_trace
        quiet_steps [OF es] sqe_helpersD [OF u] split: option.split)
  have "wp (andthen (srv_register_conn u (cq_res c))
        (andthen (v1_add_accept u lfd 0) (v1_add_socket_read u (cq_res c) (to_size (msg_len s)) 0)))
      (only F (\<lambda>_. v1_inv lfd n)) (s\<lparr>log := log s @ [Ev_cqe c, Ev_cqe_seen]\<rparr>)"
    unfolding wp_andthen [of "srv_register_conn _ _"] after_only
    by (rule wp_register_conn) (use i k after_reg in \<open>auto simp: in_bounds_def\<close>)
  with c show ?thesis
    by (simp add: v1_handle_def wp_bnd v1_get_data_slot wp_get_state
        wp_andthen [of "emit _"] io_uring_cqe_seen_def wp_emit)
qed

lemma v1_handle_read:
  assumes u: "sqe_helpers u" and inv: "v1_inv lfd n s" and ok: "cqes_ok answers (log s)" "answers (log s) c" "is_i32 (cq_res c)"
    and ov: "Int_Overflow \<in> F \<or> length (seen (log s)) < 2147483" "Null_Deref \<in> F"
    and c: "cq_user_data c = slot fd" "fd \<in> open_conns lfd (log s)" "fd \<noteq> lfd"
      "v1_conns s ! nat fd = \<lparr>tc_fd = to_u32 fd, tc_type = srv_READ\<rparr>" "in_bounds (v1_conns s) fd" "is_i32 fd"
      "last_op (log s) (slot fd) = Some (Op_recv f p m fl)" "v1_op (bufs s) fd (to_size (msg_len s)) (Op_recv f p m fl)"
  shows "wp (v1_handle u lfd c) (only F (\<lambda>_. v1_inv lfd n)) (s\<lparr>log := log s @ [Ev_cqe c]\<rparr>)"
proof -
  note i = v1_invD [OF inv]
  let ?next = "if cq_res c \<le> 0 then andthen io_uring_cqe_seen (andthen (shutdown_c fd) (close_c fd))
    else andthen io_uring_cqe_seen (v1_add_socket_write u fd (to_size (cq_res c)) 0)"
  have "wp ?next (only F (\<lambda>_. v1_inv lfd n)) (s\<lparr>log := log s @ [Ev_cqe c], v1_workcount := v1_workcount s + 1000\<rparr>)"
    if w: "is_i32 (v1_workcount s + 1000)"
  proof (cases "cq_res c \<le> 0")
    case True
    then show ?thesis
      using c i w ov(2) slots_closed [OF i(4) ok(1,2) c(1-3), of "[Ev_cqe_seen, Ev_shutdown fd]"]
      by (simp add: wp_simps host_defs v1_inv_def v1_trace)
  next
    case False
    then show ?thesis
      using c i w ok(3) ov(2) slots_rearmed [OF i(4) ok(1,2) c(1-3,5,6), where ty = srv_WRITE and es = "[Ev_cqe_seen]"]
      by (auto simp: wp_simps host_defs v1_add_defs in_bounds_def slot_def [symmetric] v1_inv_def v1_trace
          sqe_helpersD [OF u] to_size_res split: option.split)
  qed
  moreover have "Int_Overflow \<in> F" if "\<not> is_i32 (v1_workcount s + 1000)"
    using that ov(1) i(6,7) by (auto simp: is_i32_def)
  ultimately have "wp (andthen v1_workload ?next) (only F (\<lambda>_. v1_inv lfd n)) (s\<lparr>log := log s @ [Ev_cqe c]\<rparr>)"
    unfolding wp_andthen [of v1_workload] after_only by (intro wp_v1_workload) (use i in simp_all)
  then show ?thesis
    using c by (cases "cq_res c \<le> 0") (simp_all add: v1_handle_def Let_def wp_bnd wp_get_state v1_get_data_slot)
qed

lemma v1_handle_step:
  assumes u: "sqe_helpers u" and inv: "v1_inv lfd n s" and ok: "cqes_ok (v1_runs ov lfd n) (log s)" "v1_runs ov lfd n (log s) c"
  shows "wp (v1_handle u lfd c) (only (v1_faults ov) (\<lambda>_. v1_inv lfd n)) (s\<lparr>log := log s @ [Ev_cqe c]\<rparr>)"
proof -
  note i = v1_invD [OF inv]
  have k: "v1_kernel lfd n (log s) c" and ans: "cqes_ok answers (log s)" "answers (log s) c" "is_i32 (cq_res c)"
    using v1_kernel_answers [OF ok(1)] ok(2) by (auto simp: v1_runs_def v1_kernel_def slot_kernel_def)
  from i(4) ans(2) show ?thesis
  proof (cases rule: completion_cases)
    case accepted
    then show ?thesis by (rule v1_handle_accept [OF u inv ans(1) k Null_Deref_v1])
  next
    case (received fd p m fl f)
    then show ?thesis
      by (intro v1_handle_read [OF u inv ans]) (use ok(2) in \<open>auto simp: v1_runs_def v1_faults_def\<close>)
  next
    case (written fd p m fl f)
    then show ?thesis
      using i slots_rearmed [OF i(4) ans(1,2) written(1-3,5,6), where ty = srv_READ and es = "[Ev_cqe_seen]"]
      by (auto simp: v1_run v1_inv_def v1_trace sqe_helpersD [OF u] split: option.split)
  qed
qed

section \<open>The loop\<close>

lemma v1_server: "sqe_helpers u \<Longrightarrow> ring_server (v1_handle u lfd) (v1_runs ov lfd n) (v1_faults ov) (v1_inv lfd n)"
  by unfold_locales (simp_all add: v1_handle_step extends_v1_handle)

lemma v1_round_admits:
  assumes "sqe_helpers u" and "guarded (v1_runs ov lfd n) (v1_inv lfd n) s"
  shows "wp (v1_round u lfd) (admits (v1_runs ov lfd n) (v1_faults ov) (v1_inv lfd n)) s"
proof -
  have "guarded (v1_runs ov lfd n) (v1_inv lfd n) (s\<lparr>log := log s @ [Ev_submit_and_wait 1 r]\<rparr>)" for r
    using assms(2) by (auto simp: guarded_def v1_inv_def slots_ok_def entry_ok_def v1_trace inflight_other)
  from ring_server.for_list_admits [OF v1_server [OF assms(1)] this] show ?thesis
    by (simp add: v1_round_def wp_bnd wp_simps host_defs)
qed

section \<open>Start-up\<close>

definition v1_ready :: "v1 \<Rightarrow> bool" where
  "v1_ready s \<longleftrightarrow> quiet (log s) \<and> v1_workcount s = 0 \<and> is_i32 (max_connections s) \<and> 0 \<le> max_connections s \<and>
     length (v1_conns s) = nat (max_connections s) \<and> length (bufs s) = nat (max_connections s)"

lemma v1_ready_regs: "v1_ready s \<Longrightarrow> more_regs s t \<Longrightarrow> v1_ready t"
  by (auto simp: v1_ready_def more_regs_def)

lemma on_ok_regs: "wp m (on_ok (\<lambda>_. more_regs s)) s \<Longrightarrow> v1_ready s \<Longrightarrow> wp m (on_ok (\<lambda>_. v1_ready)) s"
  by (erule wp_mono) (auto simp: on_ok_def v1_ready_regs split: outcome.splits)

text \<open>The states between the first steps: without tables, with the table of connections.\<close>

definition v1_fresh :: "v1 \<Rightarrow> bool" where
  "v1_fresh s \<longleftrightarrow> log s = [] \<and> bufs s = [] \<and> v1_workcount s = 0"

definition v1_tabled :: "v1 \<Rightarrow> bool" where
  "v1_tabled s \<longleftrightarrow> quiet (log s) \<and> v1_workcount s = 0 \<and> bufs s = [] \<and> is_i32 (max_connections s) \<and> 0 \<le> max_connections s \<and>
     length (v1_conns s) = nat (max_connections s)"

lemma more_workcount: "srv.more t = srv.more s \<Longrightarrow> v1_workcount t = v1_workcount s"
  by (cases t, cases s) simp

lemma wp_v1_args: "v1_fresh s \<Longrightarrow> wp (srv_args argv) (on_ok (\<lambda>_. v1_fresh)) s"
  by (rule wp_mono [OF wp_srv_args]) (auto simp: v1_fresh_def on_ok_def split: outcome.splits dest: more_workcount)

lemma wp_v1_reserve: "v1_fresh s \<Longrightarrow> wp srv_reserve (on_ok (\<lambda>_ t. v1_fresh t \<and> is_i32 (max_connections t))) s"
  by (rule wp_mono [OF wp_srv_reserve]) (auto simp: v1_fresh_def on_ok_def split: outcome.splits dest: more_workcount)

lemma wp_v1_alloc_conns:
  "alloc_bounded a \<Longrightarrow> v1_fresh s \<and> is_i32 (max_connections s) \<Longrightarrow> wp (v1_alloc_conns a) (on_ok (\<lambda>_. v1_tabled)) s"
  using to_size_alloc [of a "log s" 8 "max_connections s"]
  by (simp add: v1_alloc_conns_def wp_simps malloc_c_def v1_fresh_def v1_tabled_def)

lemma wp_v1_alloc_bufs: "v1_tabled s \<Longrightarrow> wp (srv_alloc_bufs a) (on_ok (\<lambda>_. v1_ready)) s"
  by (rule wp_mono [OF wp_srv_alloc_bufs])
    (auto simp: more_bufs_def v1_tabled_def v1_ready_def on_ok_def split: outcome.splits)

lemma wp_v1_accept:
  assumes "sqe_helpers u" "v1_ready s"
  shows "wp (v1_add_accept u fd 0) (on_ok (\<lambda>_ t. v1_room n t \<longrightarrow> v1_inv fd n t)) s"
  using assms(2) slots_start [of "log s" _ fd "\<lambda>fd. v1_op (bufs s) fd (to_size (msg_len s))" "v1_conns s"]
  by (auto simp: v1_add_defs wp_simps sqe_helpersD [OF assms(1)] v1_inv_def v1_room_def v1_ready_def in_bounds_def is_i32_def
      quiet_start recv_step_def send_of_def ring_sends_Cons slot_def [symmetric] split: option.split)

lemma v1_start_inv:
  assumes u: "sqe_helpers u" and a: "alloc_bounded a"
    and run: "v1_start k a u argv v1_init = (Ok lfd, t)" and n: "v1_room n t"
  shows "v1_inv lfd n t"
proof -
  have fresh: "v1_fresh v1_init"
    by (simp add: v1_fresh_def v1_init_def)
  have "wp (v1_start k a u argv) (on_ok (\<lambda>lfd t. v1_room n t \<longrightarrow> v1_inv lfd n t)) v1_init"
    unfolding v1_start_def
    by (rule wp_andthen_ok [OF wp_v1_args [OF fresh]], rule wp_andthen_ok [OF wp_v1_reserve], assumption,
        rule wp_andthen_ok [OF wp_v1_alloc_conns [OF a]], assumption, rule wp_andthen_ok [OF wp_v1_alloc_bufs], assumption,
        rule wp_bnd_ok [OF on_ok_regs [OF wp_srv_listen]], assumption,
        rule wp_andthen_ok [OF on_ok_regs [OF wp_srv_init_ring]], assumption,
        rule wp_andthen_ok [OF on_ok_regs [OF wp_srv_register_listen [OF wp_init_registerfiles]]], assumption,
        rule wp_andthen_ok [OF wp_v1_accept [OF u]], assumption) (simp add: wp_ret)
  from wpD [OF this run] n show ?thesis by simp
qed

section \<open>Use of the submission ring\<close>

lemma within_v1_add:
  assumes "has_room u N"
  shows "within (- {Null_Deref}) N 1 (v1_add_accept u fd fl)" "within (- {Null_Deref}) N 1 (v1_add_socket_read u fd n fl)"
    "within (- {Null_Deref}) N 1 (v1_add_socket_write u fd n fl)"
  by (auto simp: within_def v1_add_defs wp_simps pending_step_def split: option.split dest!: has_room_None [OF assms])

lemma within_v1_other:
  "within (- {Null_Deref}) N 0 (srv_register_conn u fd)" "within (- {Null_Deref}) N 0 (v1_get_data c)"
  "within (- {Null_Deref}) N 0 io_uring_cqe_seen" "within (- {Null_Deref}) N 0 (emit (Ev_cqe c))"
  "within (- {Null_Deref}) N 0 (andthen (shutdown_c fd) (close_c fd))"
  by (auto simp: within_def v1_get_data_def wp_simps host_defs pending_step_def
      srv_register_conn_def srv_register_slot_def split: udata.split ptr.split)

lemma within_v1_workload: "within (- {Null_Deref}) N 0 v1_workload"
proof -
  have "within (- {Null_Deref}) N 0 v1_count"
    by (simp add: within_def v1_count_def wp_simps)
  from within_for [of _ _ _ "\<lambda>_. v1_count", OF this, of "[0..999]"] show ?thesis
    unfolding v1_workload_def mult_0 .
qed

lemma within_v1_handle:
  assumes "has_room u N"
  shows "within (- {Null_Deref}) N 2 (andthen (emit (Ev_cqe c)) (v1_handle u lfd c))"
proof -
  note add = within_v1_add [OF assms] and other = within_v1_other
  have accept: "within (- {Null_Deref}) N 2 (andthen io_uring_cqe_seen (andthen (srv_register_conn u fd)
      (andthen (v1_add_accept u lfd 0) (v1_add_socket_read u fd n 0))))" for fd n
    by (rule within_mono [OF within_andthen [OF other(3) within_andthen [OF other(1) within_andthen [OF add(1,2)]]]]) simp
  have close: "within (- {Null_Deref}) N 2 (andthen io_uring_cqe_seen (andthen (shutdown_c fd) (close_c fd)) :: (v1, unit) comp)" for fd
    by (rule within_mono [OF within_andthen [OF other(3) other(5)]]) simp
  have write_read: "within (- {Null_Deref}) N 2 (andthen io_uring_cqe_seen (v1_add_socket_write u fd n 0))"
    "within (- {Null_Deref}) N 2 (andthen io_uring_cqe_seen (v1_add_socket_read u fd n 0))" for fd n
    by (rule within_mono [OF within_andthen [OF other(3) add(3)]], simp)
      (rule within_mono [OF within_andthen [OF other(3) add(2)]], simp)
  have read: "within (- {Null_Deref}) N 2 (andthen v1_workload (if b then m else k))"
    if "within (- {Null_Deref}) N 2 m" "within (- {Null_Deref}) N 2 k" for b m k
    using within_andthen [OF within_v1_workload within_if [OF that]] unfolding add_0 .
  have none: "within (- {Null_Deref}) N 2 (ret () :: (v1, unit) comp)"
    by (rule within_mono [OF within_basic(1)]) simp
  have "within (- {Null_Deref}) N (0 + (0 + (0 + 2))) (andthen (emit (Ev_cqe c)) (v1_handle u lfd c))"
    unfolding v1_handle_def Let_def
    by (intro within_andthen [OF other(4)] within_bnd [OF other(2)] within_bnd [OF within_basic(2)] within_if
        accept read close write_read none)
  then show ?thesis unfolding add_0 .
qed

lemma v1_round_room:
  assumes "has_room u 32768"
  shows "wp (v1_round u lfd) (only (- {Null_Deref}) (\<lambda>_ _. True)) s"
proof -
  let ?f = "\<lambda>c. andthen (emit (Ev_cqe c)) (v1_handle u lfd c)"
  have "wp (for_list ?f (take srv_BACKLOG cs)) (only (- {Null_Deref}) (\<lambda>_ _. True))
      (s\<lparr>log := log s @ [Ev_submit_and_wait 1 r]\<rparr>)" for cs r
    by (rule wp_mono [OF withinD [OF within_for [OF within_v1_handle [OF assms]]]])
      (auto simp: pending_step_def srv_BACKLOG_def elim: only_mono)
  then show ?thesis
    by (simp add: v1_round_def host_defs wp_simps)
qed

lemma v1_run_inv:
  assumes "sqe_helpers u" "alloc_bounded a" "v1_start k a u argv v1_init = (Ok lfd, s0)"
    "v1_room n s0" "rounds m (v1_round u lfd) s0 = (r, t)" "cqes_ok (v1_runs ov lfd n) (log t)"
  shows "only (v1_faults ov) (\<lambda>_. v1_inv lfd n) r t"
proof -
  have "guarded (v1_runs ov lfd n) (v1_inv lfd n) s0"
    using v1_start_inv [OF assms(1-4)] by (simp add: guarded_def)
  then have "wp (rounds m (v1_round u lfd)) (admits (v1_runs ov lfd n) (v1_faults ov) (v1_inv lfd n)) s0"
    by (rule wp_rounds_admits) (rule v1_round_admits [OF assms(1)])
  from wpD [OF this assms(5)] assms(6) show ?thesis
    by (simp add: admits_def)
qed

lemma v1_runs_all: "cqes_ok (v1_kernel lfd n) h \<Longrightarrow> cqes_ok (v1_runs True lfd n) h"
  by (erule cqes_ok_mono) (simp add: v1_runs_def)

lemma v1_runs_few: "cqes_ok (v1_kernel lfd n) h \<Longrightarrow> length (seen h) \<le> 2147483 \<Longrightarrow> cqes_ok (v1_runs False lfd n) h"
  by (induction h rule: rev_induct) (auto simp: v1_runs_def split: option.splits)

section \<open>Properties\<close>

text \<open>
  C6: the server has exactly one accept request in flight, and one receive or send for each
  open connection; no connection is forgotten and none is served twice. This holds after
  any number of rounds, where the completions are ones the kernel may post and the accepted
  descriptors fit the tables.
\<close>

theorem v1_one_request:
  assumes "sqe_helpers u" and "alloc_bounded a" and "v1_start k a u argv v1_init = (Ok lfd, s0)" and "v1_room n s0"
    and "rounds m (v1_round u lfd) s0 = (Ok (), t)" and "cqes_ok (v1_kernel lfd n) (log t)"
  shows "inflight (log t) = image_mset slot (mset_set (insert lfd (open_conns lfd (log t))))"
  using v1_run_inv [OF assms(1-5) v1_runs_all [OF assms(6)]] by (simp add: v1_inv_def slots_ok_def)

text \<open>
  C10: the sends that v1 queues are the completed receives that brought data, in order, each
  to the connection it came from, out of the buffer it was received into and as long as what
  was received.
\<close>

theorem v1_echo:
  assumes "sqe_helpers u" and "alloc_bounded a" and "v1_start k a u argv v1_init = (Ok lfd, s0)" and "v1_room n s0"
    and "rounds m (v1_round u lfd) s0 = (Ok (), t)" and "cqes_ok (v1_kernel lfd n) (log t)"
  shows "ring_sends (log t) = ring_receives (log t)"
  using v1_run_inv [OF assms(1-5) v1_runs_all [OF assms(6)]] by (simp add: v1_inv_def)


text \<open>
  C35: v1 does not test the result of an accept. When the accept fails (for instance with
  \<^verbatim>\<open>EMFILE\<close>), the negative code is used as an index of the tables.
\<close>

theorem v1_failed_accept:
  assumes "cq_user_data c = slot lfd" and "in_bounds (v1_conns s) lfd" and "tc_type (v1_conns s ! nat lfd) = srv_ACCEPT"
    and "cq_res c < 0" and "\<And>h. u_get_sqe u h \<noteq> None"
  shows "\<exists>t. v1_handle u lfd c s = (Fault Out_Of_Bounds, t)"
proof -
  have "wp (v1_handle u lfd c) (\<lambda>r _. r = Fault Out_Of_Bounds) s"
    using assms(1-4) assms(5) [of "log s @ [Ev_cqe_seen]"]
    by (auto simp: v1_run srv_register_conn_def split: option.split)
  then show ?thesis
    by (cases "v1_handle u lfd c s") (simp add: wp_def)
qed


section \<open>Witnesses\<close>

definition ex_v1_script :: "cqe list list" where
  "ex_v1_script =
    [[\<lparr>cq_user_data = slot 3, cq_res = 5, cq_flags = 0\<rparr>], [\<lparr>cq_user_data = slot 5, cq_res = 4, cq_flags = 0\<rparr>]]"

definition ex_v1_start :: "int outcome \<times> v1" where
  "ex_v1_start = v1_start ex_sock ex_alloc_max (ex_uring ex_v1_script) ex_argv v1_init"

definition ex_v1_run :: "unit outcome \<times> v1" where
  "ex_v1_run = rounds 2 (v1_round (ex_uring ex_v1_script) 3) (snd ex_v1_start)"

lemmas ex_v1_defs = ex_v1_start_def v1_start_def v1_alloc_conns_def v1_add_defs v1_init_def ex_srv_defs comp_simps

lemma ex_v1_start_ok: "v1_start ex_sock ex_alloc_max (ex_uring ex_v1_script) ex_argv v1_init = (Ok 3, snd ex_v1_start)"
  by (simp add: ex_v1_defs)

lemma ex_v1_room: "v1_room 6 (snd ex_v1_start)"
  by (simp add: ex_v1_defs v1_room_def)

lemmas ex_v1_run_defs = ex_v1_run_def v1_round_def v1_handle_def v1_get_data_def v1_workload_run ex_v1_script_def ex_waits_def slot_def Let_def
  srv_ACCEPT_def srv_READ_def srv_WRITE_def to_u32_def

lemma ex_v1_run_ok: "rounds 2 (v1_round (ex_uring ex_v1_script) 3) (snd ex_v1_start) = (Ok (), snd ex_v1_run)"
  by (simp add: ex_v1_defs ex_v1_run_defs)

lemma ex_v1_kernel: "cqes_ok (v1_kernel 3 6) (log (snd ex_v1_run))"
  by (simp add: ex_v1_defs ex_v1_run_defs cqes_ok_def v1_kernel_def slot_kernel_def answers_def inflight_def open_conns_def slot_step_def)

lemma ex_v1_open: "open_conns 3 (log (snd ex_v1_run)) = {5}"
  by (simp add: ex_v1_defs ex_v1_run_defs open_conns_def slot_step_def)

lemma ex_v1_sends: "ring_receives (log (snd ex_v1_run)) = [(5, Obj ''heap'' 7, 4)]"
  by (simp add: ex_v1_defs ex_v1_run_defs ring_receives_def recv_step_def last_op_step_def)

lemma ex_v1_seen: "length (seen (log (snd ex_v1_run))) = 2"
  by (simp add: ex_v1_defs ex_v1_run_defs)

theorem v1_one_request_witness: "inflight (log (snd ex_v1_run)) = {#slot 3, slot 5#}"
  using v1_one_request [OF ex_uring_helpers ex_alloc_max_bounded ex_v1_start_ok ex_v1_room ex_v1_run_ok ex_v1_kernel]
  by (simp add: ex_v1_open)

theorem v1_echo_witness: "ring_sends (log (snd ex_v1_run)) = [(5, Obj ''heap'' 7, 4)]"
  using v1_echo [OF ex_uring_helpers ex_alloc_max_bounded ex_v1_start_ok ex_v1_room ex_v1_run_ok ex_v1_kernel]
  by (simp add: ex_v1_sends)


theorem v1_failed_accept_witness:
  "\<exists>t. v1_handle (ex_uring []) 3 \<lparr>cq_user_data = slot 3, cq_res = -24, cq_flags = 0\<rparr>
    (v1_init\<lparr>v1_conns := replicate 6 zero_conn\<rparr>) = (Fault Out_Of_Bounds, t)"
  by (rule v1_failed_accept) (simp_all add: in_bounds_def zero_conn_def srv_ACCEPT_def)


end
