(* ===== verification/Uring_Echo_V2.thy ===== *)
theory Uring_Echo_V2
  imports Slot_Table
begin

text \<open>
  \<^verbatim>\<open>netpoll/echo/c-iouring-server/io_uring_echo_server_v2.c\<close>: the echo server with a ring of
  provided buffers. The table of connections is the one of v1 with two more fields.
\<close>

section \<open>State\<close>

record v2conn = tconn +
  vc_multishot_recv :: bool
  vc_buf :: ptr

text \<open>The static variables, and the counter \<^verbatim>\<open>buf_added\<close> of the event loop.\<close>

record v2 = srv +
  v2_conns :: "v2conn list"
  v2_buf_added :: int

definition v2_init :: v2 where
  "v2_init = \<lparr>log = [], portno = 0, registerfiles = False, max_connections = 4092, msg_len = 2046,
     registered_files = [], bufs = [], v2_conns = [], v2_buf_added = 0\<rparr>"

definition v2_nr_bufs :: int where "v2_nr_bufs = 1024"
definition v2_bgid :: int where "v2_bgid = 16"

text \<open>Byte \<open>msg_len * i\<close> of the block at \<^verbatim>\<open>buf_ptr\<close>.\<close>

definition v2_pool_addr :: "int \<Rightarrow> (v2, ptr) comp" where
  "v2_pool_addr i = bnd get_state (\<lambda>s.
     if \<not> is_i32 (msg_len s * i) then fail Int_Overflow
     else if i < 0 \<or> v2_nr_bufs < i then fail Out_Of_Bounds
     else ret (Obj ''buf_ptr'' (msg_len s * i)))"

section \<open>Requests\<close>

definition v2_set_conn :: "int \<Rightarrow> (v2conn \<Rightarrow> v2conn) \<Rightarrow> (v2, unit) comp" where
  "v2_set_conn fd f = bnd get_state (\<lambda>s.
     bnd (read_arr (v2_conns s) fd) (\<lambda>e.
       write_arr (v2_conns s) fd (f e) (\<lambda>cs. modify (\<lambda>s. s\<lparr>v2_conns := cs\<rparr>))))"

definition v2_add_accept :: "uring \<Rightarrow> int \<Rightarrow> u32 \<Rightarrow> (v2, unit) comp" where
  "v2_add_accept u fd flags =
     bnd (get_sqe u) (\<lambda>q.
       andthen (v2_set_conn fd (\<lambda>e. e\<lparr>tc_fd := to_u32 fd, tc_type := srv_ACCEPT\<rparr>))
      (bnd get_state (\<lambda>s. emit (Ev_sqe (u_set_data u (fixed_flag (registerfiles s) (u_set_flags u
         (u_prep u (Op_accept fd (Auto ''main'' ''client_addr'') (Auto ''main'' ''client_len'') 0) q) flags))
         (Obj ''conns'' fd))))))"

definition v2_add_socket_read :: "uring \<Rightarrow> int \<Rightarrow> nat \<Rightarrow> u32 \<Rightarrow> (v2, unit) comp" where
  "v2_add_socket_read u fd len flags =
     bnd (get_sqe u) (\<lambda>q.
       andthen (v2_set_conn fd (\<lambda>e. e\<lparr>tc_fd := to_u32 fd, tc_type := srv_READ, vc_multishot_recv := True\<rparr>))
      (bnd get_state (\<lambda>s.
         let r = u_prep u (Op_recv fd NULL len 0) q
         in emit (Ev_sqe (u_set_data u (fixed_flag (registerfiles s)
              (r\<lparr>sq_flags := sq_flags r OR ucast IOSQE_BUFFER_SELECT, sq_buf_group := to_u16 v2_bgid\<rparr>))
              (Obj ''conns'' fd))))))"

text \<open>The send is made from \<^verbatim>\<open>&bufs[bid]\<close>, an element of the array of pointers.\<close>

definition v2_add_socket_write :: "uring \<Rightarrow> int \<Rightarrow> int \<Rightarrow> nat \<Rightarrow> u32 \<Rightarrow> (v2, unit) comp" where
  "v2_add_socket_write u fd bid len flags =
     bnd (get_sqe u) (\<lambda>q. bnd get_state (\<lambda>s.
       if bid < 0 \<or> int (length (bufs s)) < bid then fail Out_Of_Bounds
       else andthen (v2_set_conn fd (\<lambda>e. e\<lparr>tc_fd := to_u32 fd, tc_type := srv_WRITE\<rparr>))
        (emit (Ev_sqe (u_set_data u (fixed_flag (registerfiles s) (u_set_flags u
           (u_prep u (Op_send fd (Obj ''bufs'' bid) len 0) q) flags)) (Obj ''conns'' fd))))))"

lemmas v2_add_defs = v2_set_conn_def v2_add_accept_def v2_add_socket_read_def v2_add_socket_write_def

section \<open>The event loop\<close>

definition v2_get_data :: "cqe \<Rightarrow> (v2, v2conn) comp" where
  "v2_get_data cqe = bnd get_state (\<lambda>s. case cq_user_data cqe of
      Ref (Obj x i) \<Rightarrow> if x = ''conns'' then read_arr (v2_conns s) i else fail Wild_Write
    | _ \<Rightarrow> fail Wild_Write)"

definition v2_buf_id :: "cqe \<Rightarrow> int" where
  "v2_buf_id cqe = uint (drop_bit 16 (cq_flags cqe))"

definition v2_handle :: "uring \<Rightarrow> int \<Rightarrow> cqe \<Rightarrow> (v2, unit) comp" where
  "v2_handle u sock_listen_fd cqe =
     bnd (v2_get_data cqe) (\<lambda>user_data. bnd get_state (\<lambda>s.
       let type = tc_type user_data; fd = sint (tc_fd user_data) in
       if type = srv_ACCEPT then
         andthen (srv_register_conn u (cq_res cqe))
        (andthen (v2_add_socket_read u (cq_res cqe) (to_size (msg_len s)) 0)
          (v2_add_accept u sock_listen_fd 0))
       else if type = srv_READ then
         bnd (v2_pool_addr (v2_buf_id cqe)) (\<lambda>p.
           andthen (emit (Ev_buf_ring_add p (to_size (msg_len s)) 0 v2_nr_bufs 0))
          (andthen (modify (\<lambda>s. s\<lparr>v2_buf_added := v2_buf_added s + 1\<rparr>))
          (if cq_res cqe \<le> 0 then andthen (shutdown_c fd) (close_c fd)
           else v2_add_socket_write u fd (v2_buf_id cqe) (to_size (cq_res cqe)) 0)))
       else if type = srv_WRITE then v2_add_socket_read u fd (to_size (msg_len s)) 0
       else ret ()))"

definition v2_round :: "uring \<Rightarrow> int \<Rightarrow> (v2, unit) comp" where
  "v2_round u sock_listen_fd =
     bnd (io_uring_submit_and_wait u 1) (\<lambda>r.
       if r < 0 then exit_with 1
       else bnd (look (u_cqes u)) (\<lambda>cqes.
         andthen (modify (\<lambda>s. s\<lparr>v2_buf_added := 0\<rparr>))
        (andthen (for_list (\<lambda>c. andthen (emit (Ev_cqe c)) (v2_handle u sock_listen_fd c)) (take srv_BACKLOG cqes))
        (bnd get_state (\<lambda>s. andthen (emit (Ev_buf_ring_advance (v2_buf_added s)))
          (io_uring_cq_advance (length (take srv_BACKLOG cqes))))))))"

section \<open>Start-up\<close>

text \<open>As in v1, but a message length of 0 also asks for a plain port, and stays 0.\<close>

definition v2_args :: "string list \<Rightarrow> (v2, unit) comp" where
  "v2_args argv =
     bnd (srv_getopt argv) (\<lambda>argv. bnd get_state (\<lambda>s.
       if portno s = 0 \<or> max_connections s = 0 \<or> msg_len s = 0 then srv_plain_port argv else ret ()))"

definition v2_alloc_conns :: "alloc \<Rightarrow> (v2, unit) comp" where
  "v2_alloc_conns a = bnd get_state (\<lambda>s.
     bnd (malloc_c a (24 * to_size (max_connections s))) (\<lambda>p.
       if p = NULL then exit_with 1
       else modify (\<lambda>s. s\<lparr>v2_conns := replicate (to_size (max_connections s))
         \<lparr>tc_fd = 0, tc_type = 0, vc_multishot_recv = False, vc_buf = NULL\<rparr>\<rparr>)))"

definition v2_fill_buf_ring :: "(v2, unit) comp" where
  "v2_fill_buf_ring = andthen
     (for_list (\<lambda>i. bnd (v2_pool_addr i) (\<lambda>p. bnd get_state (\<lambda>s.
        emit (Ev_buf_ring_add p (to_size (msg_len s)) i v2_nr_bufs i)))) [0..v2_nr_bufs - 1])
     (emit (Ev_buf_ring_advance v2_nr_bufs))"

definition v2_buf_ring :: "alloc \<Rightarrow> uring \<Rightarrow> (v2, unit) comp" where
  "v2_buf_ring a u =
     bnd (malloc_c a (16 * nat v2_nr_bufs)) (\<lambda>p.
       if p = NULL then exit_with 1
       else bnd (register_buf_ring_c u p (nat v2_nr_bufs) v2_bgid) (\<lambda>r.
         if r \<noteq> 0 then exit_with 1
         else bnd get_state (\<lambda>s.
           if \<not> is_i32 (msg_len s * v2_nr_bufs) then fail Int_Overflow
           else bnd (malloc_c a (to_size (msg_len s * v2_nr_bufs))) (\<lambda>b.
             if b = NULL then exit_with 1 else v2_fill_buf_ring))))"

definition v2_start :: "sock \<Rightarrow> alloc \<Rightarrow> uring \<Rightarrow> string list \<Rightarrow> (v2, int) comp" where
  "v2_start k a u argv =
     andthen (v2_args argv)
    (andthen srv_reserve
    (andthen (v2_alloc_conns a)
    (andthen (srv_alloc_bufs a)
    (bnd (srv_listen k (SOCK_STREAM + SOCK_NONBLOCK)) (\<lambda>sock_listen_fd.
      andthen (srv_init_ring u 32768 12544)
     (andthen (v2_buf_ring a u)
     (andthen (srv_register_listen (init_registerfiles a u) u sock_listen_fd)
     (andthen (v2_add_accept u sock_listen_fd 0) (ret sock_listen_fd)))))))))"

definition v2_main :: "sock \<Rightarrow> alloc \<Rightarrow> uring \<Rightarrow> string list \<Rightarrow> nat \<Rightarrow> (v2, unit) comp" where
  "v2_main k a u argv n = bnd (v2_start k a u argv) (\<lambda>sock_listen_fd. rounds n (v2_round u sock_listen_fd))"

section \<open>The invariant\<close>

fun v2_op :: "int \<Rightarrow> nat \<Rightarrow> sqe_op \<Rightarrow> bool" where
  "v2_op fd len (Op_accept f _ _ _) = (f = fd)"
| "v2_op fd len (Op_recv f p n _) = (f = fd \<and> p = NULL \<and> n = len)"
| "v2_op fd len (Op_send f p n _) = (f = fd \<and> (case p of Obj x b \<Rightarrow> x = ''bufs'' \<and> 0 \<le> b \<and> b < v2_nr_bufs | _ \<Rightarrow> False))"
| "v2_op fd len _ = False"

definition v2_entries :: "v2 \<Rightarrow> tconn list" where
  "v2_entries s = map tconn.truncate (v2_conns s)"

definition v2_room :: "nat \<Rightarrow> int \<Rightarrow> v2 \<Rightarrow> bool" where
  "v2_room n b s \<longleftrightarrow> n \<le> length (v2_conns s) \<and> b \<le> int (length (bufs s)) \<and> b \<le> v2_nr_bufs \<and>
     (registerfiles s \<longrightarrow> n \<le> length (registered_files s))"

definition v2_inv :: "int \<Rightarrow> nat \<Rightarrow> int \<Rightarrow> v2 \<Rightarrow> bool" where
  "v2_inv lfd n b s \<longleftrightarrow> v2_room n b s \<and> is_i32 (msg_len s * v2_nr_bufs) \<and>
     slots_ok (\<lambda>fd. v2_op fd (to_size (msg_len s))) lfd (v2_entries s) (log s)"

text \<open>
  What the kernel promises: as for v1, and the buffer it reports is one of the first \<open>b\<close> of the
  ring. The numbers \<open>n\<close> and \<open>b\<close> bound what the tables have room for.
\<close>

definition v2_kernel :: "int \<Rightarrow> nat \<Rightarrow> int \<Rightarrow> event list \<Rightarrow> cqe \<Rightarrow> bool" where
  "v2_kernel lfd n b h c \<longleftrightarrow> slot_kernel lfd n h c \<and> is_i32 (cq_res c) \<and> v2_buf_id c < b"

lemma extends_v2 [extends_intros]:
  "extends (v2_set_conn fd f)" "extends (v2_add_accept u fd fl)"
  "extends (v2_add_socket_read u fd n fl)" "extends (v2_add_socket_write u fd b n fl)" "extends (v2_get_data c)"
  "extends (v2_pool_addr i)"
  unfolding v2_add_defs v2_get_data_def v2_pool_addr_def Let_def by (intro extends_intros; simp)+

lemma extends_v2_handle [extends_intros]: "extends (v2_handle u lfd c)"
  unfolding v2_handle_def Let_def shutdown_c_def close_c_def
  by (intro extends_intros) simp

lemma v2_kernel_answers: "cqes_ok (v2_kernel lfd n b) h \<Longrightarrow> cqes_ok answers h"
  by (erule cqes_ok_mono) (simp add: v2_kernel_def slot_kernel_def)

lemma v2_entries_sel [simp]:
  "length (v2_entries s) = length (v2_conns s)" "in_bounds (v2_entries s) fd = in_bounds (v2_conns s) fd"
  by (simp_all add: v2_entries_def in_bounds_def)

lemma truncate_sel [simp]: "tc_fd (tconn.truncate e) = tc_fd e" "tc_type (tconn.truncate e) = tc_type e"
  by (simp_all add: tconn.defs)

lemma truncate_eq: "tconn.truncate e = \<lparr>tc_fd = tc_fd e, tc_type = tc_type e\<rparr>"
  by (simp add: tconn.defs)

lemma v2_entry:
  "in_bounds (v2_conns s) fd \<Longrightarrow> tc_type (v2_conns s ! nat fd) = tc_type (v2_entries s ! nat fd)"
  "in_bounds (v2_conns s) fd \<Longrightarrow> tc_fd (v2_conns s ! nat fd) = tc_fd (v2_entries s ! nat fd)"
  by (auto simp: v2_entries_def in_bounds_def nat_less_iff)

lemma v2_entries_upd:
  "v2_entries (s\<lparr>v2_conns := cs[i := e]\<rparr>) = (map tconn.truncate cs)[i := \<lparr>tc_fd = tc_fd e, tc_type = tc_type e\<rparr>]"
  "v2_entries (s\<lparr>log := h\<rparr>) = v2_entries s" "v2_entries (s\<lparr>registered_files := fs\<rparr>) = v2_entries s"
  "v2_entries (s\<lparr>v2_buf_added := n\<rparr>) = v2_entries s" "map tconn.truncate (v2_conns s) = v2_entries s"
  by (simp_all add: v2_entries_def map_update tconn.defs)

lemma v2_get_data_slot:
  "cq_user_data c = slot fd \<Longrightarrow> in_bounds (v2_conns s) fd \<Longrightarrow>
    wp (v2_get_data c) Q s = Q (Ok (v2_conns s ! nat fd)) s"
  by (simp add: v2_get_data_def slot_def wp_simps)

lemma v2_invD:
  assumes "v2_inv lfd n b s"
  shows "n \<le> length (v2_conns s)" "b \<le> int (length (bufs s))" "b \<le> 1024" "registerfiles s \<longrightarrow> n \<le> length (registered_files s)"
    "is_i32 (msg_len s * 1024)" "slots_ok (\<lambda>fd. v2_op fd (to_size (msg_len s))) lfd (v2_entries s) (log s)"
  using assms by (auto simp: v2_inv_def v2_room_def v2_nr_bufs_def)

lemma v2_pool_ok: "is_i32 (m * 1024) \<Longrightarrow> 0 \<le> i \<Longrightarrow> i \<le> 1024 \<Longrightarrow> is_i32 (m * i)"
proof -
  assume m: "is_i32 (m * 1024)" and i: "0 \<le> i" "i \<le> 1024"
  have "m * i \<le> max 0 (m * 1024)" "min 0 (m * 1024) \<le> m * i"
    using i mult_left_mono [of i 1024 m] mult_left_mono_neg [of i 1024 m] mult_nonneg_nonneg [of m i] mult_nonpos_nonneg [of m i]
    by (cases "0 \<le> m"; simp)+
  with m show ?thesis by (auto simp: is_i32_def)
qed

lemma wp_v2_pool_addr:
  "is_i32 (msg_len s * 1024) \<Longrightarrow> 0 \<le> i \<Longrightarrow> i \<le> 1024 \<Longrightarrow>
    wp (v2_pool_addr i) Q s = Q (Ok (Obj ''buf_ptr'' (msg_len s * i))) s"
  by (simp add: v2_pool_addr_def wp_simps v2_pool_ok v2_nr_bufs_def)

lemma v2_buf_id_nonneg [simp]: "0 \<le> v2_buf_id c" "\<not> v2_buf_id c < 0"
  by (simp_all add: v2_buf_id_def)

lemma v2_handle_accept:
  assumes u: "sqe_helpers u" and inv: "v2_inv lfd n b s" and ok: "cqes_ok answers (log s)" "v2_kernel lfd n b (log s) c"
    and c: "cq_user_data c = slot lfd" "tc_type (v2_entries s ! nat lfd) = srv_ACCEPT" "in_bounds (v2_entries s) lfd"
  shows "wp (v2_handle u lfd c) (only {Null_Deref} (\<lambda>_. v2_inv lfd n b)) (s\<lparr>log := log s @ [Ev_cqe c]\<rparr>)"
proof -
  note i = v2_invD [OF inv]
  have k: "0 \<le> cq_res c" "cq_res c < int n" "cq_res c \<noteq> lfd" "slot_kernel lfd n (log s) c"
    using ok(2) c(1) by (auto simp: v2_kernel_def slot_kernel_def)
  have n: "n \<le> length (v2_entries s)" and ne: "nat lfd \<noteq> nat (cq_res c)"
    using i(1) k c(3) by (auto simp: in_bounds_def)
  note slots = slots_accepted [OF i(6) ok(1) k(4) n c(1)]
  have after_reg: "wp (andthen (v2_add_socket_read u (cq_res c) (to_size (msg_len s)) 0) (v2_add_accept u lfd 0))
      (only {Null_Deref} (\<lambda>_. v2_inv lfd n b)) (s\<lparr>log := log s @ Ev_cqe c # es, registered_files := fs\<rparr>)"
    if es: "quiet es" and fs: "length fs = length (registered_files s)" for es fs
    using c i k fs ne slots [where es = es and ty = srv_READ, OF _ _ _ _ _ _ _ _ disjI2 [OF refl] refl] es
    by (auto simp: wp_simps v2_add_defs in_bounds_def slot_def [symmetric] v2_inv_def v2_room_def v2_nr_bufs_def Let_def
        v2_entries_upd map_update truncate_eq list_update_swap sqe_helpersD [OF u] split: option.split)
  have "wp (andthen (srv_register_conn u (cq_res c))
        (andthen (v2_add_socket_read u (cq_res c) (to_size (msg_len s)) 0) (v2_add_accept u lfd 0)))
      (only {Null_Deref} (\<lambda>_. v2_inv lfd n b)) (s\<lparr>log := log s @ [Ev_cqe c]\<rparr>)"
    unfolding wp_andthen [of "srv_register_conn _ _"] after_only
    by (rule wp_register_conn) (use i k after_reg in \<open>auto simp: in_bounds_def\<close>)
  with c show ?thesis
    by (simp add: v2_handle_def wp_bnd v2_get_data_slot wp_get_state v2_entry)
qed

lemma v2_handle_step:
  assumes u: "sqe_helpers u" and inv: "v2_inv lfd n b s" and ok: "cqes_ok (v2_kernel lfd n b) (log s)" "v2_kernel lfd n b (log s) c"
  shows "wp (v2_handle u lfd c) (only {Null_Deref} (\<lambda>_. v2_inv lfd n b)) (s\<lparr>log := log s @ [Ev_cqe c]\<rparr>)"
proof -
  note i = v2_invD [OF inv]
  have ans: "cqes_ok answers (log s)" "answers (log s) c" "is_i32 (cq_res c)" "v2_buf_id c < b" "v2_buf_id c < 1024"
    using v2_kernel_answers [OF ok(1)] ok(2) i(3) by (auto simp: v2_kernel_def slot_kernel_def)
  note run = v2_handle_def Let_def wp_simps v2_get_data_slot host_defs v2_add_defs in_bounds_def slot_def [symmetric]
    wp_v2_pool_addr v2_entries_upd v2_inv_def v2_room_def v2_nr_bufs_def
  from i(6) ans(2) show ?thesis
  proof (cases rule: completion_cases)
    case accepted
    then show ?thesis by (intro v2_handle_accept [OF u inv ans(1) ok(2)])
  next
    case (received fd p m fl f)
    have e: "tc_type (v2_conns s ! nat fd) = srv_READ" "tc_fd (v2_conns s ! nat fd) = to_u32 fd"
      using received(4,5) by (simp_all add: v2_entry)
    let ?add = "Ev_buf_ring_add (Obj ''buf_ptr'' (msg_len s * v2_buf_id c)) (to_size (msg_len s)) 0 v2_nr_bufs 0"
    show ?thesis
    proof (cases "cq_res c \<le> 0")
      case True
      then show ?thesis
        using received e i ans slots_closed [OF i(6) ans(1,2) received(1-3), of "[?add, Ev_shutdown fd]"]
        by (simp add: run)
    next
      case False
      then show ?thesis
        using received e i ans
          slots_rearmed [OF i(6) ans(1,2) received(1-3,5,6), where ty = srv_WRITE and es = "[?add]"]
        by (auto simp: run sqe_helpersD [OF u] split: option.split)
    qed
  next
    case (written fd p m fl f)
    then have e: "tc_type (v2_conns s ! nat fd) = srv_WRITE" "tc_fd (v2_conns s ! nat fd) = to_u32 fd"
      by (simp_all add: v2_entry)
    show ?thesis
      using written e i slots_rearmed [OF i(6) ans(1,2) written(1-3,5,6), where ty = srv_READ and es = "[]"]
      by (auto simp: run sqe_helpersD [OF u] split: option.split)
  qed
qed

section \<open>The loop\<close>

lemma v2_server: "sqe_helpers u \<Longrightarrow> ring_server (v2_handle u lfd) (v2_kernel lfd n b) {Null_Deref} (v2_inv lfd n b)"
  by unfold_locales (simp_all add: v2_handle_step extends_v2_handle)

lemma v2_inv_quiet:
  assumes "guarded (v2_kernel lfd n b) (v2_inv lfd n b) s" and "quiet [e]"
  shows "guarded (v2_kernel lfd n b) (v2_inv lfd n b) (s\<lparr>log := log s @ [e], v2_buf_added := m\<rparr>)"
    "guarded (v2_kernel lfd n b) (v2_inv lfd n b) (s\<lparr>log := log s @ [e]\<rparr>)"
  using assms(1) quiet_log [OF assms(2)]
  by (auto simp: guarded_def v2_inv_def v2_room_def v2_entries_upd simp del: cqes_ok_snoc)

lemma v2_round_admits:
  assumes "sqe_helpers u" and "guarded (v2_kernel lfd n b) (v2_inv lfd n b) s"
  shows "wp (v2_round u lfd) (admits (v2_kernel lfd n b) {Null_Deref} (v2_inv lfd n b)) s"
proof -
  let ?A = "admits (v2_kernel lfd n b) {Null_Deref} (v2_inv lfd n b)"
  let ?body = "\<lambda>cqes. andthen (for_list (\<lambda>c. andthen (emit (Ev_cqe c)) (v2_handle u lfd c)) (take srv_BACKLOG cqes))
        (bnd get_state (\<lambda>s. andthen (emit (Ev_buf_ring_advance (v2_buf_added s)))
          (io_uring_cq_advance (length (take srv_BACKLOG cqes)))))"
  have tail: "wp (bnd get_state (\<lambda>s. andthen (emit (Ev_buf_ring_advance (v2_buf_added s))) (io_uring_cq_advance m))) ?A t"
    if "guarded (v2_kernel lfd n b) (v2_inv lfd n b) t" for m t
    using v2_inv_quiet(2) [OF v2_inv_quiet(2) [OF that], of "Ev_buf_ring_advance (v2_buf_added t)" "Ev_cq_advance m"]
    by (simp add: wp_simps host_defs)
  have "wp (?body cqes) ?A (s\<lparr>log := log s @ [Ev_submit_and_wait 1 r], v2_buf_added := 0\<rparr>)" for cqes r
    unfolding andthen_def [of "for_list _ _"]
    by (rule wp_bnd_admits [OF ring_server.for_list_admits [OF v2_server [OF assms(1)]] tail])
      (rule v2_inv_quiet(1) [OF assms(2)], simp)
  then show ?thesis
    by (simp add: v2_round_def wp_bnd [of "ask _ _"] wp_bnd [of "look _"] wp_andthen [of "modify _"]
        wp_ask wp_look wp_modify wp_exit io_uring_submit_and_wait_def)
qed

section \<open>The start-up\<close>

definition v2_fresh :: "v2 \<Rightarrow> bool" where
  "v2_fresh s \<longleftrightarrow> log s = [] \<and> bufs s = []"

definition v2_tabled :: "v2 \<Rightarrow> bool" where
  "v2_tabled s \<longleftrightarrow> quiet (log s) \<and> bufs s = [] \<and> is_i32 (max_connections s) \<and> 0 \<le> max_connections s \<and>
     length (v2_conns s) = nat (max_connections s)"

definition v2_ready :: "v2 \<Rightarrow> bool" where
  "v2_ready s \<longleftrightarrow> quiet (log s) \<and> is_i32 (max_connections s) \<and> 0 \<le> max_connections s \<and>
     length (v2_conns s) = nat (max_connections s) \<and> length (bufs s) = nat (max_connections s)"

definition v2_pooled :: "v2 \<Rightarrow> bool" where
  "v2_pooled s \<longleftrightarrow> v2_ready s \<and> is_i32 (msg_len s * 1024)"

lemma v2_regs: "more_regs s t \<Longrightarrow> v2_ready s \<Longrightarrow> v2_ready t" "more_regs s t \<Longrightarrow> v2_pooled s \<Longrightarrow> v2_pooled t"
  by (auto simp: v2_ready_def v2_pooled_def more_regs_def)

lemma v2_on_ok_regs:
  "wp m (on_ok (\<lambda>_. more_regs s)) s \<Longrightarrow> v2_ready s \<Longrightarrow> wp m (on_ok (\<lambda>_. v2_ready)) s"
  "wp m (on_ok (\<lambda>_. more_regs s)) s \<Longrightarrow> v2_pooled s \<Longrightarrow> wp m (on_ok (\<lambda>_. v2_pooled)) s"
  by (erule wp_mono, auto simp: on_ok_def v2_regs split: outcome.splits)+

lemma wp_v2_args: "v2_fresh s \<Longrightarrow> wp (v2_args argv) (on_ok (\<lambda>_. v2_fresh)) s"
  unfolding v2_args_def
  by (rule wp_bnd_ok [OF wp_srv_getopt]) (simp add: wp_simps srv_plain_port_def Let_def v2_fresh_def)

lemma wp_v2_reserve: "v2_fresh s \<Longrightarrow> wp srv_reserve (on_ok (\<lambda>_ t. v2_fresh t \<and> is_i32 (max_connections t))) s"
  by (rule wp_mono [OF wp_srv_reserve]) (auto simp: v2_fresh_def on_ok_def split: outcome.splits)

lemma wp_v2_alloc_conns:
  "alloc_bounded a \<Longrightarrow> v2_fresh s \<and> is_i32 (max_connections s) \<Longrightarrow> wp (v2_alloc_conns a) (on_ok (\<lambda>_. v2_tabled)) s"
  using to_size_alloc [of a "log s" 24 "max_connections s"]
  by (simp add: v2_alloc_conns_def wp_simps malloc_c_def v2_fresh_def v2_tabled_def)

lemma wp_v2_alloc_bufs: "v2_tabled s \<Longrightarrow> wp (srv_alloc_bufs a) (on_ok (\<lambda>_. v2_ready)) s"
  by (rule wp_mono [OF wp_srv_alloc_bufs])
    (auto simp: more_bufs_def v2_tabled_def v2_ready_def on_ok_def split: outcome.splits)

lemma wp_v2_fill: "v2_pooled s \<Longrightarrow> wp v2_fill_buf_ring (on_ok (\<lambda>_. v2_pooled)) s"
  unfolding v2_fill_buf_ring_def
  by (rule wp_andthen_ok [OF wp_for_list_ok [where I = v2_pooled]])
    (auto simp: v2_pool_addr_def wp_simps v2_pooled_def v2_ready_def)

lemma wp_v2_buf_ring: "v2_ready s \<Longrightarrow> wp (v2_buf_ring a u) (on_ok (\<lambda>_. v2_pooled)) s"
  by (auto simp: v2_buf_ring_def wp_simps malloc_c_def host_defs v2_nr_bufs_def v2_ready_def v2_pooled_def intro!: wp_v2_fill)

lemma wp_v2_accept:
  assumes "sqe_helpers u" "v2_pooled s"
  shows "wp (v2_add_accept u fd 0) (on_ok (\<lambda>_ t. v2_room n b t \<longrightarrow> v2_inv fd n b t)) s"
  using assms(2) slots_start [of "log s" _ fd "\<lambda>fd. v2_op fd (to_size (msg_len s))" "v2_entries s"]
  by (auto simp: v2_add_defs wp_simps sqe_helpersD [OF assms(1)] v2_inv_def v2_room_def v2_pooled_def v2_ready_def v2_nr_bufs_def
      in_bounds_def is_i32_def v2_entries_upd slot_def [symmetric] split: option.split)

lemma v2_start_inv:
  assumes u: "sqe_helpers u" and a: "alloc_bounded a"
    and run: "v2_start k a u argv v2_init = (Ok lfd, t)" and n: "v2_room n b t"
  shows "v2_inv lfd n b t"
proof -
  have fresh: "v2_fresh v2_init"
    by (simp add: v2_fresh_def v2_init_def)
  have "wp (v2_start k a u argv) (on_ok (\<lambda>lfd t. v2_room n b t \<longrightarrow> v2_inv lfd n b t)) v2_init"
    unfolding v2_start_def
    by (rule wp_andthen_ok [OF wp_v2_args [OF fresh]], rule wp_andthen_ok [OF wp_v2_reserve], assumption,
        rule wp_andthen_ok [OF wp_v2_alloc_conns [OF a]], assumption, rule wp_andthen_ok [OF wp_v2_alloc_bufs], assumption,
        rule wp_bnd_ok [OF v2_on_ok_regs(1) [OF wp_srv_listen]], assumption,
        rule wp_andthen_ok [OF v2_on_ok_regs(1) [OF wp_srv_init_ring]], assumption,
        rule wp_andthen_ok [OF wp_v2_buf_ring], assumption,
        rule wp_andthen_ok [OF v2_on_ok_regs(2) [OF wp_srv_register_listen [OF wp_init_registerfiles]]], assumption,
        rule wp_andthen_ok [OF wp_v2_accept [OF u]], assumption) (simp add: wp_ret)
  from wpD [OF this run] n show ?thesis by simp
qed

lemma v2_run_inv:
  assumes "sqe_helpers u" "alloc_bounded a" "v2_start k a u argv v2_init = (Ok lfd, s0)"
    "v2_room n b s0" "rounds m (v2_round u lfd) s0 = (r, t)" "cqes_ok (v2_kernel lfd n b) (log t)"
  shows "only {Null_Deref} (\<lambda>_. v2_inv lfd n b) r t"
proof -
  have "guarded (v2_kernel lfd n b) (v2_inv lfd n b) s0"
    using v2_start_inv [OF assms(1-4)] by (simp add: guarded_def)
  then have "wp (rounds m (v2_round u lfd)) (admits (v2_kernel lfd n b) {Null_Deref} (v2_inv lfd n b)) s0"
    by (rule wp_rounds_admits) (rule v2_round_admits [OF assms(1)])
  from wpD [OF this assms(5)] assms(6) show ?thesis
    by (simp add: admits_def)
qed

section \<open>Properties\<close>

text \<open>
  C13: v2 has exactly one accept request in flight and one receive or send for each open
  connection, after any number of rounds, and its loop indexes its tables and the buffer pool
  within their bounds; the only undefined behaviour left is a full submission ring.
\<close>

theorem v2_one_request:
  assumes "sqe_helpers u" and "alloc_bounded a" and "v2_start k a u argv v2_init = (Ok lfd, s0)" and "v2_room n b s0"
    and "rounds m (v2_round u lfd) s0 = (r, t)" and "cqes_ok (v2_kernel lfd n b) (log t)"
  shows "case r of
      Ok _ \<Rightarrow> inflight (log t) = image_mset slot (mset_set (insert lfd (open_conns lfd (log t))))
    | Exit _ \<Rightarrow> True
    | Fault f \<Rightarrow> f = Null_Deref"
  using v2_run_inv [OF assms] by (cases r) (simp_all add: v2_inv_def slots_ok_def)

text \<open>
  C32: what v2 does with a message it received. It puts the buffer back into the ring before it
  is sent, as number 0 and at offset 0 whatever its number was, and it queues a send of as many
  bytes as were received out of the array of pointers \<^verbatim>\<open>bufs\<close>, not out of the buffer: the
  client is sent other memory than it sent.
\<close>

theorem v2_sends_other_memory:
  assumes "sqe_helpers u" and "cq_user_data c = slot fd" and "in_bounds (v2_conns s) fd" and "is_i32 fd"
    and "tc_type (v2_conns s ! nat fd) = srv_READ" and "tc_fd (v2_conns s ! nat fd) = to_u32 fd"
    and "0 < cq_res c" and "v2_handle u lfd c s = (Ok (), t)"
  shows "\<exists>q. log t = log s @ [Ev_buf_ring_add (Obj ''buf_ptr'' (msg_len s * v2_buf_id c)) (to_size (msg_len s)) 0 v2_nr_bufs 0,
      Ev_sqe q] \<and> sq_op q = Op_send fd (Obj ''bufs'' (v2_buf_id c)) (to_size (cq_res c)) 0"
proof -
  have "wp (v2_handle u lfd c) (on_ok (\<lambda>_ t. \<exists>q. log t = log s @
      [Ev_buf_ring_add (Obj ''buf_ptr'' (msg_len s * v2_buf_id c)) (to_size (msg_len s)) 0 v2_nr_bufs 0, Ev_sqe q] \<and>
      sq_op q = Op_send fd (Obj ''bufs'' (v2_buf_id c)) (to_size (cq_res c)) 0)) s"
    using assms(2-7)
    by (auto simp: v2_handle_def Let_def wp_simps v2_get_data_slot v2_pool_addr_def v2_add_defs sqe_helpersD [OF assms(1)]
        split: option.split)
  from wpD [OF this assms(8)] show ?thesis by simp
qed

section \<open>Witnesses\<close>

definition v2_fill_log :: "int \<Rightarrow> event list" where
  "v2_fill_log m = map (\<lambda>i. Ev_buf_ring_add (Obj ''buf_ptr'' (m * i)) (to_size m) i v2_nr_bufs i) [0..v2_nr_bufs - 1] @
     [Ev_buf_ring_advance v2_nr_bufs]"

lemma for_list_emit:
  assumes "\<And>i t. i \<in> set xs \<Longrightarrow> msg_len t = m \<Longrightarrow> f i t = (Ok (), t\<lparr>log := log t @ [g i]\<rparr>)" and "msg_len s = m"
  shows "for_list f xs s = (Ok (), s\<lparr>log := log s @ map g xs\<rparr>)"
  using assms by (induction xs arbitrary: s) (simp_all add: comp_simps)

lemma v2_fill_run:
  assumes "is_i32 (msg_len s * 1024)"
  shows "v2_fill_buf_ring s = (Ok (), s\<lparr>log := log s @ v2_fill_log (msg_len s)\<rparr>)"
proof -
  have "for_list (\<lambda>i. bnd (v2_pool_addr i) (\<lambda>p. bnd get_state (\<lambda>s.
      emit (Ev_buf_ring_add p (to_size (msg_len s)) i v2_nr_bufs i)))) [0..v2_nr_bufs - 1] s =
    (Ok (), s\<lparr>log := log s @ map (\<lambda>i. Ev_buf_ring_add (Obj ''buf_ptr'' (msg_len s * i)) (to_size (msg_len s)) i v2_nr_bufs i)
      [0..v2_nr_bufs - 1]\<rparr>)"
  proof (rule for_list_emit [where m = "msg_len s"])
    fix i :: int and t :: v2
    assume "i \<in> set [0..v2_nr_bufs - 1]" and m: "msg_len t = msg_len s"
    then have "0 \<le> i" "i \<le> 1024"
      by (simp_all add: v2_nr_bufs_def del: upto_rec_numeral)
    then have "\<not> i < 0" "\<not> v2_nr_bufs < i" "is_i32 (msg_len s * i)"
      using v2_pool_ok [OF assms] by (simp_all add: v2_nr_bufs_def)
    then show "bnd (v2_pool_addr i) (\<lambda>p. bnd get_state (\<lambda>s. emit (Ev_buf_ring_add p (to_size (msg_len s)) i v2_nr_bufs i))) t =
        (Ok (), t\<lparr>log := log t @ [Ev_buf_ring_add (Obj ''buf_ptr'' (msg_len s * i)) (to_size (msg_len s)) i v2_nr_bufs i]\<rparr>)"
      using m by (simp add: v2_pool_addr_def comp_simps)
  qed simp
  then show ?thesis
    by (simp add: v2_fill_buf_ring_def v2_fill_log_def andthen_def bnd_def emit_def)
qed

lemma v2_fill_quiet: "quiet (v2_fill_log m)"
  unfolding v2_fill_log_def quiet_def list_all_iff by auto

lemma v2_fill_ok [simp]: "ok_from K pre (v2_fill_log m)" "queued (v2_fill_log m) = []"
proof -
  have "ok_from K pre es \<and> queued es = []" if "quiet es" for es
    using that by (induction es arbitrary: pre) simp_all
  from this [OF v2_fill_quiet] show "ok_from K pre (v2_fill_log m)" "queued (v2_fill_log m) = []"
    by simp_all
qed

lemma v2_fill_filter [simp]: "filter ex_is_wait (v2_fill_log m) = []" "filter is_malloc (v2_fill_log m) = []"
  unfolding v2_fill_log_def filter_empty_conv by auto

definition ex_v2_script :: "cqe list list" where
  "ex_v2_script =
    [[\<lparr>cq_user_data = slot 3, cq_res = 5, cq_flags = 0\<rparr>], [\<lparr>cq_user_data = slot 5, cq_res = 4, cq_flags = 0x20001\<rparr>]]"

definition ex_v2_start :: "int outcome \<times> v2" where
  "ex_v2_start = v2_start ex_sock ex_alloc_max (ex_uring ex_v2_script) ex_argv v2_init"

definition ex_v2_run :: "unit outcome \<times> v2" where
  "ex_v2_run = rounds 2 (v2_round (ex_uring ex_v2_script) 3) (snd ex_v2_start)"

lemma ex_v2_args: "v2_args ex_argv s = (Ok (), s\<lparr>portno := 8080, max_connections := -26\<rparr>)" if "msg_len s \<noteq> 0"
  using that by (simp add: v2_args_def srv_getopt_def ex_getopt comp_simps srv_option_def ex_atoi)

lemma ex_v2_size: "to_size 2095104 = 2095104"
  by (simp add: to_size_def)

lemmas ex_v2_defs = ex_v2_size ex_v2_start_def v2_start_def v2_alloc_conns_def v2_buf_ring_def v2_fill_run v2_add_defs v2_init_def
  v2_nr_bufs_def ex_v2_args ex_srv_defs comp_simps Let_def

lemma ex_v2_start_ok: "v2_start ex_sock ex_alloc_max (ex_uring ex_v2_script) ex_argv v2_init = (Ok 3, snd ex_v2_start)"
  by (simp add: ex_v2_defs)

lemma ex_v2_room: "v2_room 6 6 (snd ex_v2_start)"
  by (simp add: ex_v2_defs v2_room_def)

lemmas ex_v2_run_defs = ex_v2_run_def v2_round_def v2_handle_def v2_get_data_def v2_pool_addr_def v2_buf_id_def
  ex_v2_script_def ex_waits_def slot_def srv_ACCEPT_def srv_READ_def srv_WRITE_def to_u32_def

lemma ex_v2_run_ok: "rounds 2 (v2_round (ex_uring ex_v2_script) 3) (snd ex_v2_start) = (Ok (), snd ex_v2_run)"
  by (simp add: ex_v2_defs ex_v2_run_defs)

lemma ex_v2_kernel: "cqes_ok (v2_kernel 3 6 6) (log (snd ex_v2_run))"
  by (simp add: ex_v2_defs ex_v2_run_defs cqes_ok_def v2_kernel_def slot_kernel_def answers_def inflight_def open_conns_def
      slot_step_def ok_from_append quiet_steps [OF v2_fill_quiet])

lemma ex_v2_open: "open_conns 3 (log (snd ex_v2_run)) = {5}"
  by (simp add: ex_v2_defs ex_v2_run_defs open_conns_def slot_step_def quiet_steps [OF v2_fill_quiet])

theorem v2_one_request_witness: "inflight (log (snd ex_v2_run)) = {#slot 3, slot 5#}"
  using v2_one_request [OF ex_uring_helpers ex_alloc_max_bounded ex_v2_start_ok ex_v2_room ex_v2_run_ok ex_v2_kernel]
  by (simp add: ex_v2_open)

definition ex_v2_cqe :: cqe where
  "ex_v2_cqe = \<lparr>cq_user_data = slot 1, cq_res = 4, cq_flags = 0x20001\<rparr>"

definition ex_v2_reading :: v2 where
  "ex_v2_reading = v2_init\<lparr>bufs := replicate 2 (Obj ''heap'' 1),
     v2_conns := replicate 2 \<lparr>tc_fd = 1, tc_type = srv_READ, vc_multishot_recv = True, vc_buf = NULL\<rparr>\<rparr>"

definition ex_v2_read :: "unit outcome \<times> v2" where
  "ex_v2_read = v2_handle (ex_uring []) 3 ex_v2_cqe ex_v2_reading"

lemma ex_v2_read_ok: "v2_handle (ex_uring []) 3 ex_v2_cqe ex_v2_reading = (Ok (), snd ex_v2_read)"
  by (simp add: ex_v2_read_def ex_v2_cqe_def ex_v2_reading_def ex_v2_defs ex_v2_run_defs)

theorem v2_sends_other_memory_witness:
  "\<exists>q. log (snd ex_v2_read) = [Ev_buf_ring_add (Obj ''buf_ptr'' 4092) 2046 0 1024 0, Ev_sqe q] \<and>
    sq_op q = Op_send 1 (Obj ''bufs'' 2) 4 0"
proof -
  have facts: "cq_user_data ex_v2_cqe = slot 1" "in_bounds (v2_conns ex_v2_reading) 1" "is_i32 1"
    "tc_type (v2_conns ex_v2_reading ! nat 1) = srv_READ" "tc_fd (v2_conns ex_v2_reading ! nat 1) = to_u32 1" "0 < cq_res ex_v2_cqe"
    by (simp_all add: ex_v2_cqe_def ex_v2_reading_def in_bounds_def is_i32_def to_u32_def)
  have "v2_buf_id ex_v2_cqe = 2" "msg_len ex_v2_reading = 2046" "cq_res ex_v2_cqe = 4" "log ex_v2_reading = []"
    by (simp_all add: ex_v2_cqe_def ex_v2_reading_def v2_buf_id_def v2_init_def)
  with v2_sends_other_memory [OF ex_uring_helpers facts ex_v2_read_ok] show ?thesis
    by (simp add: ex_to_size v2_nr_bufs_def)
qed

end
