(* ===== verification/Uring_Echo_V3.thy ===== *)
theory Uring_Echo_V3
  imports Slot_Table
begin

text \<open>
  \<^verbatim>\<open>netpoll/echo/c-iouring-server/io_uring_echo_server_v3.c\<close>: the echo server that watches
  each connection with a multishot poll. A descriptor has one entry in each of three tables,
  so that a poll, a receive and a send can be in flight at once.
\<close>

section \<open>State\<close>

datatype conn_table = Conns_read | Conns_write | Conns_poll

fun table_name :: "conn_table \<Rightarrow> string" where
  "table_name Conns_read = ''conns_read''"
| "table_name Conns_write = ''conns_write''"
| "table_name Conns_poll = ''conns_poll''"

record v3 = srv +
  v3_tables :: "conn_table \<Rightarrow> tconn list"
  v3_clients :: int

definition v3_init :: v3 where
  "v3_init = \<lparr>log = [], portno = 0, registerfiles = False, max_connections = 4092, msg_len = 2046,
     registered_files = [], bufs = [], v3_tables = (\<lambda>_. []), v3_clients = 0\<rparr>"

section \<open>Requests\<close>

definition v3_set_conn :: "conn_table \<Rightarrow> int \<Rightarrow> u32 \<Rightarrow> (v3, unit) comp" where
  "v3_set_conn t fd ty = bnd get_state (\<lambda>s.
     write_arr (v3_tables s t) fd \<lparr>tc_fd = to_u32 fd, tc_type = ty\<rparr> (\<lambda>cs.
       modify (\<lambda>s. s\<lparr>v3_tables := (v3_tables s)(t := cs)\<rparr>)))"

definition v3_add_accept :: "uring \<Rightarrow> int \<Rightarrow> u32 \<Rightarrow> (v3, unit) comp" where
  "v3_add_accept u fd flags =
     bnd (get_sqe u) (\<lambda>q.
       andthen (v3_set_conn Conns_read fd srv_ACCEPT)
      (bnd get_state (\<lambda>s. emit (Ev_sqe (u_set_data u (fixed_flag (registerfiles s) (u_set_flags u
         (u_prep u (Op_accept fd (Auto ''main'' ''client_addr'') (Auto ''main'' ''client_len'') 0) q) flags))
         (Obj ''conns_read'' fd))))))"

definition v3_add_poll_read :: "uring \<Rightarrow> int \<Rightarrow> nat \<Rightarrow> bool \<Rightarrow> (v3, unit) comp" where
  "v3_add_poll_read u fd len is_poll =
     bnd (get_sqe u) (\<lambda>q.
       if is_poll then
         andthen (v3_set_conn Conns_poll fd srv_POLL_IN_READY)
          (emit (Ev_sqe (u_set_data u ((u_prep u (Op_poll_add fd POLLIN) q)\<lparr>sq_len := 1\<rparr>) (Obj ''conns_poll'' fd))))
       else bnd get_state (\<lambda>s. bnd (read_arr (bufs s) fd) (\<lambda>buf.
         andthen (v3_set_conn Conns_read fd srv_READ)
          (emit (Ev_sqe (u_set_data u (fixed_flag (registerfiles s) (u_set_flags u
             (u_prep u (Op_recv fd buf len 0) q) 0)) (Obj ''conns_read'' fd)))))))"

definition v3_add_socket_write :: "uring \<Rightarrow> int \<Rightarrow> nat \<Rightarrow> u32 \<Rightarrow> (v3, unit) comp" where
  "v3_add_socket_write u fd len flags =
     bnd (get_sqe u) (\<lambda>q. bnd get_state (\<lambda>s. bnd (read_arr (bufs s) fd) (\<lambda>buf.
       andthen (v3_set_conn Conns_write fd srv_WRITE)
        (emit (Ev_sqe (u_set_data u (fixed_flag (registerfiles s) (u_set_flags u
           (u_prep u (Op_send fd buf len 0) q) flags)) (Obj ''conns_write'' fd)))))))"

lemmas v3_add_defs = v3_set_conn_def v3_add_accept_def v3_add_poll_read_def v3_add_socket_write_def

section \<open>The event loop\<close>

definition v3_get_data :: "cqe \<Rightarrow> (v3, tconn) comp" where
  "v3_get_data cqe = bnd get_state (\<lambda>s. case cq_user_data cqe of
      Ref (Obj x i) \<Rightarrow>
        if x = ''conns_read'' then read_arr (v3_tables s Conns_read) i
        else if x = ''conns_write'' then read_arr (v3_tables s Conns_write) i
        else if x = ''conns_poll'' then read_arr (v3_tables s Conns_poll) i
        else fail Wild_Write
    | _ \<Rightarrow> fail Wild_Write)"

definition v3_count_client :: "(v3, unit) comp" where
  "v3_count_client = bnd get_state (\<lambda>s.
     if is_i32 (v3_clients s + 1) then modify (\<lambda>s. s\<lparr>v3_clients := v3_clients s + 1\<rparr>) else fail Int_Overflow)"

definition v3_handle :: "uring \<Rightarrow> int \<Rightarrow> cqe \<Rightarrow> (v3, unit) comp" where
  "v3_handle u sock_listen_fd cqe =
     bnd (v3_get_data cqe) (\<lambda>user_data. bnd get_state (\<lambda>s.
       let type = tc_type user_data; fd = sint (tc_fd user_data) in
       if type = srv_ACCEPT then
         andthen io_uring_cqe_seen
        (andthen (srv_register_conn u (cq_res cqe))
        (andthen (v3_add_poll_read u (cq_res cqe) (to_size (msg_len s)) True)
        (andthen (v3_add_accept u sock_listen_fd 0) v3_count_client)))
       else if type = srv_READ then
         (if cq_res cqe \<le> 0 then
            andthen io_uring_cqe_seen (andthen (shutdown_c fd) (close_c fd))
          else andthen io_uring_cqe_seen (v3_add_socket_write u fd (to_size (cq_res cqe)) 0))
       else if type = srv_WRITE then io_uring_cqe_seen
       else if type = srv_POLL_IN_READY then
         andthen (v3_add_poll_read u fd (to_size (msg_len s)) False) io_uring_cqe_seen
       else ret ()))"

definition v3_round :: "uring \<Rightarrow> int \<Rightarrow> (v3, unit) comp" where
  "v3_round u sock_listen_fd =
     bnd (io_uring_submit_and_wait u 1) (\<lambda>r.
       if r < 0 then exit_with 1
       else bnd (look (u_cqes u)) (\<lambda>cqes.
         for_list (\<lambda>c. andthen (emit (Ev_cqe c)) (v3_handle u sock_listen_fd c)) (take srv_BACKLOG cqes)))"

section \<open>Start-up\<close>

definition v3_alloc_table :: "alloc \<Rightarrow> conn_table \<Rightarrow> (v3, unit) comp" where
  "v3_alloc_table a t = bnd get_state (\<lambda>s.
     bnd (malloc_c a (8 * to_size (max_connections s))) (\<lambda>p.
       if p = NULL then exit_with 1
       else modify (\<lambda>s. s\<lparr>v3_tables := (v3_tables s)(t := replicate (to_size (max_connections s)) zero_conn)\<rparr>)))"

definition v3_init_registerfiles :: "alloc \<Rightarrow> uring \<Rightarrow> (v3, int) comp" where
  "v3_init_registerfiles a u = bnd get_state (\<lambda>s. srv_register_files a u (to_size (max_connections s)))"

text \<open>The thread that is started only sleeps.\<close>

definition v3_start :: "sock \<Rightarrow> alloc \<Rightarrow> uring \<Rightarrow> string list \<Rightarrow> (v3, int) comp" where
  "v3_start k a u argv =
     andthen (srv_args argv)
    (andthen srv_reserve
    (andthen (v3_alloc_table a Conns_read)
    (andthen (v3_alloc_table a Conns_write)
    (andthen (v3_alloc_table a Conns_poll)
    (andthen (srv_alloc_bufs a)
    (bnd (srv_listen k SOCK_STREAM) (\<lambda>sock_listen_fd.
      andthen (bnd get_state (\<lambda>s. srv_init_ring u (unat (to_u32 (max_connections s))) 12544))
     (andthen (srv_register_listen (v3_init_registerfiles a u) u sock_listen_fd)
     (andthen (v3_add_accept u sock_listen_fd 0)
     (andthen (emit Ev_thread) (ret sock_listen_fd)))))))))))"

definition v3_main :: "sock \<Rightarrow> alloc \<Rightarrow> uring \<Rightarrow> string list \<Rightarrow> nat \<Rightarrow> (v3, unit) comp" where
  "v3_main k a u argv n = bnd (v3_start k a u argv) (\<lambda>sock_listen_fd. rounds n (v3_round u sock_listen_fd))"

section \<open>The invariant\<close>

text \<open>Where the request functions put the entry of an operation, and the type they write.\<close>

fun v3_place :: "sqe_op \<Rightarrow> (conn_table \<times> int \<times> u32) option" where
  "v3_place (Op_accept f _ _ _) = Some (Conns_read, f, srv_ACCEPT)"
| "v3_place (Op_recv f _ _ _) = Some (Conns_read, f, srv_READ)"
| "v3_place (Op_send f _ _ _) = Some (Conns_write, f, srv_WRITE)"
| "v3_place (Op_poll_add f _) = Some (Conns_poll, f, srv_POLL_IN_READY)"
| "v3_place _ = None"

fun v3_op :: "int \<Rightarrow> ptr list \<Rightarrow> sqe_op \<Rightarrow> bool" where
  "v3_op lfd bs (Op_accept f _ _ _) = (f = lfd)"
| "v3_op lfd bs (Op_recv f p _ _) = (f \<noteq> lfd \<and> p = bs ! nat f)"
| "v3_op lfd bs (Op_send f p _ _) = (f \<noteq> lfd \<and> p = bs ! nat f)"
| "v3_op lfd bs (Op_poll_add f _) = (f \<noteq> lfd)"
| "v3_op lfd bs _ = False"

definition v3_typed :: "int \<Rightarrow> ptr list \<Rightarrow> (conn_table \<Rightarrow> tconn list) \<Rightarrow> sqe \<Rightarrow> bool" where
  "v3_typed lfd bs tabs q \<longleftrightarrow> v3_op lfd bs (sq_op q) \<and>
     (case v3_place (sq_op q) of None \<Rightarrow> False | Some (t, fd, ty) \<Rightarrow>
        is_i32 fd \<and> in_bounds (tabs t) fd \<and> sq_user_data q = Ref (Obj (table_name t) fd) \<and>
        tabs t ! nat fd = \<lparr>tc_fd = to_u32 fd, tc_type = ty\<rparr>)"

definition v3_room :: "nat \<Rightarrow> v3 \<Rightarrow> bool" where
  "v3_room n s \<longleftrightarrow> n \<le> length (bufs s) \<and> (registerfiles s \<longrightarrow> n \<le> length (registered_files s))"

definition v3_ok :: "int \<Rightarrow> ptr list \<Rightarrow> (conn_table \<Rightarrow> tconn list) \<Rightarrow> sqe set \<Rightarrow> bool" where
  "v3_ok lfd bs tabs Q \<longleftrightarrow> (\<forall>t. length (tabs t) = length bs) \<and> in_bounds bs lfd \<and> is_i32 lfd \<and>
     (\<forall>q \<in> Q. v3_typed lfd bs tabs q)"

definition v3_inv :: "int \<Rightarrow> nat \<Rightarrow> v3 \<Rightarrow> bool" where
  "v3_inv lfd n s \<longleftrightarrow> v3_room n s \<and> is_i32 (v3_clients s) \<and>
     v3_ok lfd (bufs s) (v3_tables s) (set (queued (log s))) \<and>
     ring_sends (log s) = ring_receives (log s)"

text \<open>
  What the kernel promises: a completion carries the user data of a request that was queued
  (a multishot request has many), and an accept returns a descriptor that the tables have room for.
\<close>

definition v3_kernel :: "int \<Rightarrow> nat \<Rightarrow> event list \<Rightarrow> cqe \<Rightarrow> bool" where
  "v3_kernel lfd n h c \<longleftrightarrow> cq_user_data c \<in> sq_user_data ` set (queued h) \<and> is_i32 (cq_res c) \<and>
     (cq_user_data c = Ref (Obj ''conns_read'' lfd) \<longrightarrow> 0 \<le> cq_res c \<and> cq_res c < int n \<and> cq_res c \<noteq> lfd)"

lemma table_name_inj [simp]: "table_name t = table_name t' \<longleftrightarrow> t = t'"
  by (cases t; cases t') simp_all

lemma srv_types_poll [simp]:
  "srv_POLL_IN_READY \<noteq> srv_ACCEPT" "srv_POLL_IN_READY \<noteq> srv_READ" "srv_POLL_IN_READY \<noteq> srv_WRITE"
  by (simp_all add: srv_ACCEPT_def srv_READ_def srv_WRITE_def srv_POLL_IN_READY_def)

lemma v3_place_type:
  "v3_op lfd bs op \<Longrightarrow> v3_op lfd bs op' \<Longrightarrow> v3_place op = Some (t, fd, ty) \<Longrightarrow> v3_place op' = Some (t, fd, ty') \<Longrightarrow> ty = ty'"
  by (cases op; cases op') auto

text \<open>Writing the entry of a request keeps the entries of the others.\<close>

lemma v3_typed_update:
  assumes "v3_typed lfd bs tabs q" and "v3_op lfd bs op" and "v3_place op = Some (t, fd, ty)" and "in_bounds (tabs t) fd"
  shows "v3_typed lfd bs (tabs(t := (tabs t)[nat fd := \<lparr>tc_fd = to_u32 fd, tc_type = ty\<rparr>])) q"
proof -
  obtain t' fd' ty' where q: "v3_op lfd bs (sq_op q)" "v3_place (sq_op q) = Some (t', fd', ty')" "is_i32 fd'"
    "in_bounds (tabs t') fd'" "sq_user_data q = Ref (Obj (table_name t') fd')"
    "tabs t' ! nat fd' = \<lparr>tc_fd = to_u32 fd', tc_type = ty'\<rparr>"
    using assms(1) by (auto simp: v3_typed_def split: option.splits)
  have same: "ty' = ty" if "t' = t" "fd' = fd"
    using v3_place_type [OF q(1) assms(2)] q(2) assms(3) that by blast
  have "nat fd' = nat fd \<longleftrightarrow> fd' = fd" if "t' = t"
    using q(4) assms(4) that by (auto simp: in_bounds_def)
  with same q assms(4) show ?thesis
    by (cases "t' = t"; cases "fd' = fd") (auto simp: v3_typed_def in_bounds_def)
qed

lemma v3_ok_add:
  assumes "v3_ok lfd bs tabs Q" and "v3_op lfd bs (sq_op q)" and "v3_place (sq_op q) = Some (t, fd, ty)"
    and "in_bounds bs fd" and "is_i32 fd" and "sq_user_data q = Ref (Obj (table_name t) fd)"
  shows "v3_ok lfd bs (tabs(t := (tabs t)[nat fd := \<lparr>tc_fd = to_u32 fd, tc_type = ty\<rparr>])) (insert q Q)"
proof -
  have b: "in_bounds (tabs t) fd"
    using assms(1,4) by (simp add: v3_ok_def in_bounds_def)
  then have "v3_typed lfd bs (tabs(t := (tabs t)[nat fd := \<lparr>tc_fd = to_u32 fd, tc_type = ty\<rparr>])) q"
    using assms by (auto simp: v3_typed_def in_bounds_def)
  then show ?thesis
    using assms(1) v3_typed_update [where tabs = tabs and t = t, OF _ assms(2,3) b] by (auto simp: v3_ok_def)
qed

text \<open>The four kinds of completions.\<close>

lemma v3_completion_cases:
  assumes "v3_ok lfd bs tabs (set (queued h))" and "cq_user_data c \<in> sq_user_data ` set (queued h)"
  obtains (accepted) a b fl where "cq_user_data c = Ref (Obj ''conns_read'' lfd)" "last_op h (cq_user_data c) = Some (Op_accept lfd a b fl)"
      "in_bounds (tabs Conns_read) lfd" "tabs Conns_read ! nat lfd = \<lparr>tc_fd = to_u32 lfd, tc_type = srv_ACCEPT\<rparr>"
    | (received) fd m fl where "cq_user_data c = Ref (Obj ''conns_read'' fd)" "last_op h (cq_user_data c) = Some (Op_recv fd (bs ! nat fd) m fl)"
      "fd \<noteq> lfd" "is_i32 fd" "in_bounds bs fd" "in_bounds (tabs Conns_read) fd" "tabs Conns_read ! nat fd = \<lparr>tc_fd = to_u32 fd, tc_type = srv_READ\<rparr>"
    | (written) fd p m fl where "cq_user_data c = Ref (Obj ''conns_write'' fd)" "last_op h (cq_user_data c) = Some (Op_send fd p m fl)"
      "in_bounds (tabs Conns_write) fd" "tabs Conns_write ! nat fd = \<lparr>tc_fd = to_u32 fd, tc_type = srv_WRITE\<rparr>"
    | (polled) fd m where "cq_user_data c = Ref (Obj ''conns_poll'' fd)" "last_op h (cq_user_data c) = Some (Op_poll_add fd m)"
      "fd \<noteq> lfd" "is_i32 fd" "in_bounds bs fd" "in_bounds (tabs Conns_poll) fd"
      "tabs Conns_poll ! nat fd = \<lparr>tc_fd = to_u32 fd, tc_type = srv_POLL_IN_READY\<rparr>"
proof -
  obtain q where q: "q \<in> set (queued h)" "sq_user_data q = cq_user_data c" "last_op h (cq_user_data c) = Some (sq_op q)"
    using last_op_queued [OF assms(2)] by blast
  have ty: "v3_typed lfd bs tabs q" and len: "length (tabs t) = length bs" for t
    using assms(1) q(1) by (auto simp: v3_ok_def)
  then have b: "in_bounds bs fd" if "in_bounds (tabs t) fd" for t fd
    using that by (simp add: in_bounds_def)
  show thesis
  proof (cases "sq_op q")
    case (Op_accept f a b fl)
    with ty q accepted show ?thesis by (auto simp: v3_typed_def)
  next
    case (Op_recv f p m fl)
    with ty q received b show ?thesis by (auto simp: v3_typed_def)
  next
    case (Op_send f p m fl)
    with ty q written show ?thesis by (auto simp: v3_typed_def)
  next
    case (Op_poll_add f m)
    with ty q polled b show ?thesis by (auto simp: v3_typed_def)
  qed (use ty in \<open>simp_all add: v3_typed_def\<close>)
qed

lemma extends_v3 [extends_intros]:
  "extends (v3_set_conn t fd ty)" "extends (v3_add_accept u fd fl)"
  "extends (v3_add_poll_read u fd n b)" "extends (v3_add_socket_write u fd n fl)" "extends (v3_get_data c)"
  "extends v3_count_client"
  unfolding v3_add_defs v3_get_data_def v3_count_client_def by (intro extends_intros; simp)+

lemma extends_v3_handle [extends_intros]: "extends (v3_handle u lfd c)"
  unfolding v3_handle_def Let_def shutdown_c_def close_c_def io_uring_cqe_seen_def
  by (intro extends_intros)

lemma v3_get_data_ref:
  "cq_user_data c = Ref (Obj (table_name t) fd) \<Longrightarrow> in_bounds (v3_tables s t) fd \<Longrightarrow>
    wp (v3_get_data c) Q s = Q (Ok (v3_tables s t ! nat fd)) s"
  by (cases t) (simp_all add: v3_get_data_def wp_simps)

text \<open>The handler keeps the invariant.\<close>

lemma v3_invD:
  assumes "v3_inv lfd n s"
  shows "n \<le> length (bufs s)" "registerfiles s \<longrightarrow> n \<le> length (registered_files s)" "is_i32 (v3_clients s)"
    "v3_ok lfd (bufs s) (v3_tables s) (set (queued (log s)))" "ring_sends (log s) = ring_receives (log s)"
    "length (v3_tables s t) = length (bufs s)" "in_bounds (bufs s) lfd" "is_i32 lfd"
  using assms by (auto simp: v3_inv_def v3_room_def v3_ok_def)

lemmas v3_trace = last_op_step_def recv_step_def ring_sends_Cons send_of_def

lemmas v3_run = v3_handle_def Let_def wp_simps host_defs v3_add_defs in_bounds_def

lemma v3_handle_accept:
  assumes u: "sqe_helpers u" and inv: "v3_inv lfd n s" and k: "v3_kernel lfd n (log s) c"
    and c: "cq_user_data c = Ref (Obj ''conns_read'' lfd)" "last_op (log s) (cq_user_data c) = Some (Op_accept lfd a b fl)"
      "in_bounds (v3_tables s Conns_read) lfd" "v3_tables s Conns_read ! nat lfd = \<lparr>tc_fd = to_u32 lfd, tc_type = srv_ACCEPT\<rparr>"
  shows "wp (v3_handle u lfd c) (only {Null_Deref, Int_Overflow} (\<lambda>_. v3_inv lfd n)) (s\<lparr>log := log s @ [Ev_cqe c]\<rparr>)"
proof -
  note i = v3_invD [OF inv]
  have r: "0 \<le> cq_res c" "cq_res c < int n" "cq_res c \<noteq> lfd" "is_i32 (cq_res c)"
    using k c(1) by (auto simp: v3_kernel_def)
  have ok: "v3_ok lfd (bufs s) ((v3_tables s)(Conns_poll := (v3_tables s Conns_poll)[nat (cq_res c) :=
        \<lparr>tc_fd = to_u32 (cq_res c), tc_type = srv_POLL_IN_READY\<rparr>],
      Conns_read := (v3_tables s Conns_read)[nat lfd := \<lparr>tc_fd = to_u32 lfd, tc_type = srv_ACCEPT\<rparr>]))
      (insert p (insert q (set (queued (log s)))))"
    if "sq_op p = Op_poll_add (cq_res c) m" "sq_user_data p = Ref (Obj ''conns_poll'' (cq_res c))"
      "sq_op q = Op_accept lfd x y z" "sq_user_data q = Ref (Obj ''conns_read'' lfd)" for p q m x y z
  proof -
    have "v3_ok lfd (bufs s) ((v3_tables s)(Conns_poll := (v3_tables s Conns_poll)[nat (cq_res c) :=
        \<lparr>tc_fd = to_u32 (cq_res c), tc_type = srv_POLL_IN_READY\<rparr>])) (insert p (set (queued (log s))))"
      by (rule v3_ok_add [OF i(4)]) (use that r i(1) in \<open>auto simp: in_bounds_def\<close>)
    from v3_ok_add [OF this, of q Conns_read lfd srv_ACCEPT] show ?thesis
      using that i(7,8) by (simp add: insert_commute)
  qed
  have after_reg: "wp (andthen (v3_add_poll_read u (cq_res c) (to_size (msg_len s)) True)
        (andthen (v3_add_accept u lfd 0) v3_count_client))
      (only {Null_Deref, Int_Overflow} (\<lambda>_. v3_inv lfd n)) (s\<lparr>log := log s @ Ev_cqe c # Ev_cqe_seen # es, registered_files := fs\<rparr>)"
    if es: "quiet es" and fs: "length fs = length (registered_files s)" for es fs
  proof -
    have "queued es = []"
      using es by (induction es) simp_all
    then show ?thesis
      using c i r fs ok es
      by (auto simp: wp_simps v3_add_defs v3_count_client_def in_bounds_def v3_inv_def v3_room_def v3_trace
          quiet_steps [OF es] sqe_helpersD [OF u] split: option.split)
  qed
  have "wp (andthen (srv_register_conn u (cq_res c)) (andthen (v3_add_poll_read u (cq_res c) (to_size (msg_len s)) True)
        (andthen (v3_add_accept u lfd 0) v3_count_client)))
      (only {Null_Deref, Int_Overflow} (\<lambda>_. v3_inv lfd n)) (s\<lparr>log := log s @ [Ev_cqe c, Ev_cqe_seen]\<rparr>)"
    unfolding wp_andthen [of "srv_register_conn _ _"] after_only
    by (rule wp_register_conn) (use i r after_reg in \<open>auto simp: in_bounds_def\<close>)
  with c v3_get_data_ref [of c Conns_read lfd] show ?thesis
    by (simp add: v3_handle_def wp_bnd wp_get_state wp_andthen [of "emit _"] io_uring_cqe_seen_def wp_emit)
qed

lemma v3_handle_step:
  assumes u: "sqe_helpers u" and inv: "v3_inv lfd n s" and k: "v3_kernel lfd n (log s) c"
  shows "wp (v3_handle u lfd c) (only {Null_Deref, Int_Overflow} (\<lambda>_. v3_inv lfd n)) (s\<lparr>log := log s @ [Ev_cqe c]\<rparr>)"
proof -
  note i = v3_invD [OF inv]
  have d: "cq_user_data c \<in> sq_user_data ` set (queued (log s))" and i32: "is_i32 (cq_res c)"
    using k by (simp_all add: v3_kernel_def)
  from i(4) d show ?thesis
  proof (cases rule: v3_completion_cases)
    case (accepted a b fl)
    then show ?thesis by (rule v3_handle_accept [OF u inv k])
  next
    case (received fd m fl)
    then show ?thesis
      using i i32 v3_get_data_ref [of c Conns_read fd]
        v3_ok_add [OF i(4), where t = Conns_write and fd = fd and ty = srv_WRITE]
      by (auto simp: v3_run v3_inv_def v3_room_def v3_trace sqe_helpersD [OF u] to_size_res split: option.split)
  next
    case (written fd p m fl)
    then show ?thesis
      using i v3_get_data_ref [of c Conns_write fd]
      by (simp add: v3_run v3_inv_def v3_room_def v3_trace)
  next
    case (polled fd m)
    then show ?thesis
      using i v3_get_data_ref [of c Conns_poll fd]
        v3_ok_add [OF i(4), where t = Conns_read and fd = fd and ty = srv_READ]
      by (auto simp: v3_run v3_inv_def v3_room_def v3_trace sqe_helpersD [OF u] to_size_res split: option.split)
  qed
qed

section \<open>The loop\<close>

lemma v3_server:
  "sqe_helpers u \<Longrightarrow> ring_server (v3_handle u lfd) (v3_kernel lfd n) {Null_Deref, Int_Overflow} (v3_inv lfd n)"
  by unfold_locales (simp_all add: v3_handle_step extends_v3_handle)

lemma v3_round_admits:
  assumes "sqe_helpers u" and "guarded (v3_kernel lfd n) (v3_inv lfd n) s"
  shows "wp (v3_round u lfd) (admits (v3_kernel lfd n) {Null_Deref, Int_Overflow} (v3_inv lfd n)) s"
proof -
  have "guarded (v3_kernel lfd n) (v3_inv lfd n) (s\<lparr>log := log s @ [Ev_submit_and_wait 1 r]\<rparr>)" for r
    using assms(2) by (auto simp: guarded_def v3_inv_def v3_room_def v3_trace)
  from ring_server.for_list_admits [OF v3_server [OF assms(1)] this] show ?thesis
    by (simp add: v3_round_def wp_bnd wp_simps host_defs)
qed

section \<open>The start-up\<close>

definition v3_fresh :: "v3 \<Rightarrow> bool" where
  "v3_fresh s \<longleftrightarrow> log s = [] \<and> bufs s = [] \<and> v3_clients s = 0"

definition v3_tabled :: "conn_table set \<Rightarrow> v3 \<Rightarrow> bool" where
  "v3_tabled T s \<longleftrightarrow> quiet (log s) \<and> bufs s = [] \<and> v3_clients s = 0 \<and> is_i32 (max_connections s) \<and>
     (\<forall>t \<in> T. 0 \<le> max_connections s \<and> length (v3_tables s t) = nat (max_connections s))"

definition v3_ready :: "v3 \<Rightarrow> bool" where
  "v3_ready s \<longleftrightarrow> quiet (log s) \<and> v3_clients s = 0 \<and> length (bufs s) < 2 ^ 31 \<and>
     (\<forall>t. length (v3_tables s t) = length (bufs s))"

lemma conn_table_UNIV: "{Conns_poll, Conns_write, Conns_read} = UNIV"
  using conn_table.exhaust by auto

lemma more_clients: "srv.more t = srv.more s \<Longrightarrow> v3_clients t = v3_clients s"
  by (cases t, cases s) simp

lemma wp_v3_args: "v3_fresh s \<Longrightarrow> wp (srv_args argv) (on_ok (\<lambda>_. v3_fresh)) s"
  by (rule wp_mono [OF wp_srv_args])
    (auto simp: v3_fresh_def on_ok_def split: outcome.splits dest: more_clients)

lemma wp_v3_reserve: "v3_fresh s \<Longrightarrow> wp srv_reserve (on_ok (\<lambda>_. v3_tabled {})) s"
  by (rule wp_mono [OF wp_srv_reserve])
    (auto simp: v3_fresh_def v3_tabled_def on_ok_def split: outcome.splits dest: more_clients)

lemma wp_v3_alloc_table:
  "alloc_bounded a \<Longrightarrow> v3_tabled T s \<Longrightarrow> wp (v3_alloc_table a t) (on_ok (\<lambda>_. v3_tabled (insert t T))) s"
  using to_size_alloc [of a "log s" 8 "max_connections s"]
  by (auto simp: v3_alloc_table_def wp_simps malloc_c_def v3_tabled_def)

lemma wp_v3_alloc_bufs:
  assumes "v3_tabled {Conns_poll, Conns_write, Conns_read} s"
  shows "wp (srv_alloc_bufs a) (on_ok (\<lambda>_. v3_ready)) s"
  using assms unfolding conn_table_UNIV
  by (intro wp_mono [OF wp_srv_alloc_bufs])
    (auto simp: more_bufs_def v3_tabled_def v3_ready_def is_i32_def on_ok_def split: outcome.splits)

lemma v3_on_ok_regs:
  assumes "wp m (on_ok (\<lambda>_. more_regs s)) s" and "v3_ready s"
  shows "wp m (on_ok (\<lambda>_. v3_ready)) s"
  using assms by (elim wp_mono) (auto simp: on_ok_def more_regs_def v3_ready_def split: outcome.splits)

lemma wp_v3_init_registerfiles: "wp (v3_init_registerfiles a u) (on_ok (\<lambda>_. more_regs s)) s"
  by (auto simp: v3_init_registerfiles_def srv_register_files_def wp_simps host_defs malloc_c_def more_regsI more_regs_log)

lemma wp_v3_init_ring: "wp (bnd get_state (\<lambda>s. srv_init_ring u (f s) fl)) (on_ok (\<lambda>_. more_regs s)) s"
  using wp_srv_init_ring [of u "f s" fl s] by (simp add: wp_bnd wp_get_state)

lemma wp_v3_accept:
  assumes "sqe_helpers u" "v3_ready s"
  shows "wp (v3_add_accept u fd 0) (on_ok (\<lambda>_ t. v3_room n t \<longrightarrow> v3_inv fd n t)) s"
proof -
  have q: "queued (log s) = []"
    using assms(2) unfolding v3_ready_def by (induction "log s") (auto simp: quiet_def list_all_iff queued_def map_filter_def)
  have "v3_ok fd (bufs s) (v3_tables s) {}" if "in_bounds (bufs s) fd"
    using assms(2) that by (auto simp: v3_ok_def v3_ready_def in_bounds_def is_i32_def)
  then show ?thesis
    using assms(2) v3_ok_add [of fd "bufs s" "v3_tables s" "{}" _ Conns_read fd srv_ACCEPT]
    by (auto simp: v3_add_defs wp_simps sqe_helpersD [OF assms(1)] v3_inv_def v3_room_def v3_ready_def in_bounds_def
        is_i32_def quiet_start v3_trace q split: option.split)
qed

lemma v3_inv_thread: "v3_inv lfd n s \<Longrightarrow> v3_inv lfd n (s\<lparr>log := log s @ [Ev_thread]\<rparr>)"
  by (simp add: v3_inv_def v3_room_def v3_trace)

lemma v3_start_inv:
  assumes u: "sqe_helpers u" and a: "alloc_bounded a"
    and run: "v3_start k a u argv v3_init = (Ok lfd, t)" and n: "v3_room n t"
  shows "v3_inv lfd n t"
proof -
  have fresh: "v3_fresh v3_init"
    by (simp add: v3_fresh_def v3_init_def)
  have "wp (v3_start k a u argv) (on_ok (\<lambda>lfd t. v3_room n t \<longrightarrow> v3_inv lfd n t)) v3_init"
    unfolding v3_start_def
    by (rule wp_andthen_ok [OF wp_v3_args [OF fresh]], rule wp_andthen_ok [OF wp_v3_reserve], assumption,
        rule wp_andthen_ok [OF wp_v3_alloc_table [OF a]], assumption, rule wp_andthen_ok [OF wp_v3_alloc_table [OF a]], assumption,
        rule wp_andthen_ok [OF wp_v3_alloc_table [OF a]], assumption, rule wp_andthen_ok [OF wp_v3_alloc_bufs], assumption,
        rule wp_bnd_ok [OF v3_on_ok_regs [OF wp_srv_listen]], assumption,
        rule wp_andthen_ok [OF v3_on_ok_regs [OF wp_v3_init_ring]], assumption,
        rule wp_andthen_ok [OF v3_on_ok_regs [OF wp_srv_register_listen [OF wp_v3_init_registerfiles]]], assumption,
        rule wp_andthen_ok [OF wp_v3_accept [where n = n, OF u]], assumption)
      (simp add: wp_simps v3_room_def v3_inv_thread)
  from wpD [OF this run] n show ?thesis by simp
qed

lemma v3_run_inv:
  assumes "sqe_helpers u" "alloc_bounded a" "v3_start k a u argv v3_init = (Ok lfd, s0)"
    "v3_room n s0" "rounds m (v3_round u lfd) s0 = (r, t)" "cqes_ok (v3_kernel lfd n) (log t)"
  shows "only {Null_Deref, Int_Overflow} (\<lambda>_. v3_inv lfd n) r t"
proof -
  have "guarded (v3_kernel lfd n) (v3_inv lfd n) s0"
    using v3_start_inv [OF assms(1-4)] by (simp add: guarded_def)
  then have "wp (rounds m (v3_round u lfd)) (admits (v3_kernel lfd n) {Null_Deref, Int_Overflow} (v3_inv lfd n)) s0"
    by (rule wp_rounds_admits) (rule v3_round_admits [OF assms(1)])
  from wpD [OF this assms(5)] assms(6) show ?thesis
    by (simp add: admits_def)
qed

section \<open>Properties\<close>

text \<open>
  C11: the entry that the user data of a request points to has the type and the descriptor of
  that request, for every request v3 has queued after any number of rounds. So the handler
  reads the right type at every completion, however many a multishot poll produces, and no
  table is indexed out of its bounds.
\<close>

theorem v3_requests_typed:
  assumes "sqe_helpers u" and "alloc_bounded a" and "v3_start k a u argv v3_init = (Ok lfd, s0)" and "v3_room n s0"
    and "rounds m (v3_round u lfd) s0 = (r, t)" and "cqes_ok (v3_kernel lfd n) (log t)"
  shows "case r of
      Ok _ \<Rightarrow> list_all (v3_typed lfd (bufs t) (v3_tables t)) (queued (log t))
    | Exit _ \<Rightarrow> True
    | Fault f \<Rightarrow> f = Null_Deref \<or> f = Int_Overflow"
  using v3_run_inv [OF assms] by (cases r) (auto simp: v3_inv_def v3_ok_def list_all_iff)

text \<open>
  C12: the sends that v3 queues are the completed receives that brought data, in order, each to
  the connection it came from, out of its buffer and with the length received.
\<close>

theorem v3_echo:
  assumes "sqe_helpers u" and "alloc_bounded a" and "v3_start k a u argv v3_init = (Ok lfd, s0)" and "v3_room n s0"
    and "rounds m (v3_round u lfd) s0 = (Ok (), t)" and "cqes_ok (v3_kernel lfd n) (log t)"
  shows "ring_sends (log t) = ring_receives (log t)"
  using v3_run_inv [OF assms] by (simp add: v3_inv_def)

text \<open>
  C33: v3 does not wait for a send before it receives again. When a poll reports more input while
  a send of a connection is in flight, a receive is queued into the very buffer that is being
  sent, so the bytes the client gets back may be those of its next message.
\<close>

theorem v3_receives_into_sent_buffer:
  assumes "sqe_helpers u" and "v3_inv lfd n s" and "Ev_sqe q \<in> set (log s)" and "sq_op q = Op_send fd p len fl"
    and "sq_user_data q \<in># inflight (log s)"
    and "cq_user_data c = Ref (Obj ''conns_poll'' fd)" and "cq_user_data c \<in> sq_user_data ` set (queued (log s))"
    and "v3_handle u lfd c s = (Ok (), t)"
  shows "\<exists>r. log t = log s @ [Ev_sqe r, Ev_cqe_seen] \<and> sq_op r = Op_recv fd p (to_size (msg_len s)) 0"
proof -
  note i = v3_invD [OF assms(2)]
  have "q \<in> set (queued (log s))"
    using assms(3) by (force simp: queued_def map_filter_def)
  then have p: "p = bufs s ! nat fd"
    using i(4) assms(4) by (auto simp: v3_ok_def v3_typed_def)
  from i(4) assms(7) have "wp (v3_handle u lfd c) (on_ok (\<lambda>_ t. \<exists>r. log t = log s @ [Ev_sqe r, Ev_cqe_seen] \<and>
      sq_op r = Op_recv fd p (to_size (msg_len s)) 0)) s"
  proof (cases rule: v3_completion_cases)
    case (polled g m)
    then show ?thesis
      using assms(6) p v3_get_data_ref [of c Conns_poll fd s]
      by (auto simp: v3_run sqe_helpersD [OF assms(1)] split: option.split)
  qed (use assms(6) in simp_all)
  from wpD [OF this assms(8)] show ?thesis by simp
qed

section \<open>Witnesses\<close>

definition ex_v3_script :: "cqe list list" where
  "ex_v3_script =
    [[\<lparr>cq_user_data = Ref (Obj ''conns_read'' 3), cq_res = 5, cq_flags = 0\<rparr>],
     [\<lparr>cq_user_data = Ref (Obj ''conns_poll'' 5), cq_res = 1, cq_flags = 2\<rparr>],
     [\<lparr>cq_user_data = Ref (Obj ''conns_read'' 5), cq_res = 4, cq_flags = 0\<rparr>]]"

definition ex_v3_start :: "int outcome \<times> v3" where
  "ex_v3_start = v3_start ex_sock ex_alloc_max (ex_uring ex_v3_script) ex_argv v3_init"

definition ex_v3_run :: "unit outcome \<times> v3" where
  "ex_v3_run = rounds 3 (v3_round (ex_uring ex_v3_script) 3) (snd ex_v3_start)"

definition ex_v3_poll :: cqe where
  "ex_v3_poll = \<lparr>cq_user_data = Ref (Obj ''conns_poll'' 5), cq_res = 1, cq_flags = 2\<rparr>"

definition ex_v3_next :: "unit outcome \<times> v3" where
  "ex_v3_next = v3_handle (ex_uring ex_v3_script) 3 ex_v3_poll (snd ex_v3_run)"

lemmas ex_v3_defs = ex_v3_start_def v3_start_def v3_alloc_table_def v3_add_defs v3_init_def ex_srv_defs comp_simps

lemmas ex_v3_run_defs = ex_v3_run_def v3_round_def v3_handle_def v3_get_data_def v3_count_client_def ex_v3_script_def ex_waits_def
  Let_def srv_ACCEPT_def srv_READ_def srv_WRITE_def srv_POLL_IN_READY_def to_u32_def

lemma ex_v3_start_ok: "v3_start ex_sock ex_alloc_max (ex_uring ex_v3_script) ex_argv v3_init = (Ok 3, snd ex_v3_start)"
  by (simp add: ex_v3_defs)

lemma ex_v3_room: "v3_room 6 (snd ex_v3_start)"
  by (simp add: ex_v3_defs v3_room_def)

lemma ex_v3_run_ok: "rounds 3 (v3_round (ex_uring ex_v3_script) 3) (snd ex_v3_start) = (Ok (), snd ex_v3_run)"
  by (simp add: ex_v3_defs ex_v3_run_defs)

lemma ex_v3_kernel: "cqes_ok (v3_kernel 3 6) (log (snd ex_v3_run))"
  by (simp add: ex_v3_defs ex_v3_run_defs cqes_ok_def v3_kernel_def)

lemma ex_v3_receives: "ring_receives (log (snd ex_v3_run)) = [(5, Obj ''heap'' 9, 4)]"
  by (simp add: ex_v3_defs ex_v3_run_defs ring_receives_def recv_step_def last_op_step_def)

lemma ex_v3_send:
  "\<exists>q. Ev_sqe q \<in> set (log (snd ex_v3_run)) \<and> sq_op q = Op_send 5 (Obj ''heap'' 9) 4 0 \<and> sq_user_data q \<in># inflight (log (snd ex_v3_run))"
  by (rule exI [of _ "ex_slot\<lparr>sq_op := Op_send 5 (Obj ''heap'' 9) 4 0, sq_flags := 0, sq_user_data := Ref (Obj ''conns_write'' 5)\<rparr>"])
    (simp add: ex_v3_defs ex_v3_run_defs inflight_def)

lemma ex_v3_next_ok:
  "v3_handle (ex_uring ex_v3_script) 3 ex_v3_poll (snd ex_v3_run) = (Ok (), snd ex_v3_next)"
  "cq_user_data ex_v3_poll \<in> sq_user_data ` set (queued (log (snd ex_v3_run)))"
  by (simp_all add: ex_v3_next_def ex_v3_poll_def ex_v3_defs ex_v3_run_defs)

theorem v3_requests_typed_witness:
  "list_all (v3_typed 3 (bufs (snd ex_v3_run)) (v3_tables (snd ex_v3_run))) (queued (log (snd ex_v3_run)))"
  using v3_requests_typed [OF ex_uring_helpers ex_alloc_max_bounded ex_v3_start_ok ex_v3_room ex_v3_run_ok ex_v3_kernel]
  by simp

theorem v3_echo_witness: "ring_sends (log (snd ex_v3_run)) = [(5, Obj ''heap'' 9, 4)]"
  using v3_echo [OF ex_uring_helpers ex_alloc_max_bounded ex_v3_start_ok ex_v3_room ex_v3_run_ok ex_v3_kernel]
  by (simp add: ex_v3_receives)

theorem v3_receives_into_sent_buffer_witness:
  "\<exists>r m. log (snd ex_v3_next) = log (snd ex_v3_run) @ [Ev_sqe r, Ev_cqe_seen] \<and> sq_op r = Op_recv 5 (Obj ''heap'' 9) m 0"
proof -
  have inv: "v3_inv 3 6 (snd ex_v3_run)"
    using v3_run_inv [OF ex_uring_helpers ex_alloc_max_bounded ex_v3_start_ok ex_v3_room ex_v3_run_ok ex_v3_kernel] by simp
  obtain q where q: "Ev_sqe q \<in> set (log (snd ex_v3_run))" "sq_op q = Op_send 5 (Obj ''heap'' 9) 4 0"
    "sq_user_data q \<in># inflight (log (snd ex_v3_run))"
    using ex_v3_send by blast
  have "cq_user_data ex_v3_poll = Ref (Obj ''conns_poll'' 5)"
    by (simp add: ex_v3_poll_def)
  from v3_receives_into_sent_buffer [OF ex_uring_helpers inv q this ex_v3_next_ok(2,1)] show ?thesis
    by blast
qed

end
