(* ===== verification/Uring_Echo_Live.thy ===== *)
theory Uring_Echo_Live
  imports Uring_Echo
begin

text \<open>
  That the server of \<open>Uring_Echo\<close> gets to its loop and stays in it: it neither leaves the
  process nor runs into undefined behaviour, and each round submits what was queued and
  gives back to the kernel exactly the completions it has handled.
\<close>

section \<open>Computations that do not leave the process\<close>

definition no_exit :: "('s, 'a) comp \<Rightarrow> bool" where
  "no_exit m \<longleftrightarrow> (\<forall>s c. fst (m s) \<noteq> Exit c)"

named_theorems no_exit_intros \<open>computations that do not leave the process\<close>

lemma no_exit_basic [no_exit_intros]:
  "no_exit (ret a)" "no_exit (fail f)" "no_exit get_state" "no_exit (modify g)"
  by (simp_all add: no_exit_def comp_simps)

lemma no_exit_io [no_exit_intros]: "no_exit (emit e)" "no_exit (ask g k)" "no_exit (look g)"
  by (simp_all add: no_exit_def comp_simps)

lemma no_exit_bnd [no_exit_intros]: "no_exit m \<Longrightarrow> (\<And>a. no_exit (f a)) \<Longrightarrow> no_exit (bnd m f)"
  unfolding no_exit_def by (auto simp: bnd_def split: prod.split outcome.split) (metis fst_conv)+

lemma no_exit_andthen [no_exit_intros]: "no_exit m \<Longrightarrow> no_exit k \<Longrightarrow> no_exit (andthen m k)"
  by (simp add: andthen_def no_exit_bnd)

lemma no_exit_if [no_exit_intros]: "(b \<Longrightarrow> no_exit m) \<Longrightarrow> (\<not> b \<Longrightarrow> no_exit k) \<Longrightarrow> no_exit (if b then m else k)"
  by simp

lemma no_exit_when [no_exit_intros]: "no_exit m \<Longrightarrow> no_exit (when_c b m)"
  by (simp add: when_c_def no_exit_basic)

lemma no_exit_queue [no_exit_intros]: "no_exit (queue_sqe u fill)"
  unfolding queue_sqe_def by (intro no_exit_intros) (simp add: no_exit_basic no_exit_io split: option.split)

lemma no_exit_for: "(\<And>x. x \<in> set xs \<Longrightarrow> no_exit (f x)) \<Longrightarrow> no_exit (for_list f xs)"
  by (induction xs) (auto intro!: no_exit_intros)

lemma no_exit_rounds: "no_exit m \<Longrightarrow> no_exit (rounds n m)"
  by (induction n) (auto intro!: no_exit_intros)

text \<open>A computation that asks the environment only leaves where the answer makes it.\<close>

lemma no_exit_ask:
  assumes "\<And>h. no_exit (f (g h))"
  shows "no_exit (bnd (ask g k) f)"
  using assms by (simp add: no_exit_def comp_simps)

lemma no_exit_look:
  assumes "\<And>h. no_exit (f (g h))"
  shows "no_exit (bnd (look g) f)"
  using assms by (simp add: no_exit_def comp_simps)

section \<open>The environment\<close>

text \<open>
  The start-up goes well: port and ring can be had, the kernel has what is asked of it, and
  the buffers are registered.
\<close>

definition es_up :: "sock \<Rightarrow> uring \<Rightarrow> bool" where
  "es_up k u \<longleftrightarrow> (\<forall>h. 0 \<le> k_bind k h \<and> 0 \<le> k_listen k h) \<and>
     (\<forall>h. case u_queue_init_params u h of (r, features) \<Rightarrow> 0 \<le> r \<and> features AND IORING_FEAT_FAST_POLL \<noteq> 0) \<and>
     (\<forall>h. u_probe u h = Some True) \<and>
     (\<forall>h. case u_wait_cqe u h of (r, p) \<Rightarrow> (case p of None \<Rightarrow> False | Some c \<Rightarrow> 0 \<le> cq_res c))"

lemma es_upD:
  assumes "es_up k u"
  shows "0 \<le> k_bind k h" "0 \<le> k_listen k h" "u_probe u h = Some True"
    "u_queue_init_params u h = (r, features) \<Longrightarrow> 0 \<le> r \<and> features AND IORING_FEAT_FAST_POLL \<noteq> 0"
    "u_wait_cqe u h = (r, p) \<Longrightarrow> \<exists>c. p = Some c \<and> 0 \<le> cq_res c"
proof -
  assume "u_wait_cqe u h = (r, p)"
  moreover have "case u_wait_cqe u h of (r, p) \<Rightarrow> (case p of None \<Rightarrow> False | Some c \<Rightarrow> 0 \<le> cq_res c)"
    using assms by (simp add: es_up_def)
  ultimately show "\<exists>c. p = Some c \<and> 0 \<le> cq_res c"
    by (auto split: option.splits)
qed (use assms in \<open>auto simp: es_up_def split: prod.splits\<close>)

text \<open>The kernel does not run out of buffers, and takes the ones it is given.\<close>

definition es_fed :: "uring \<Rightarrow> bool" where
  "es_fed u \<longleftrightarrow> (\<forall>h. list_all (\<lambda>c. cq_res c \<noteq> - ENOBUFS \<and>
     (es_type (cq_user_data c) = es_PROV_BUF \<longrightarrow> 0 \<le> cq_res c)) (u_cqes u h))"

section \<open>The server does not leave\<close>

lemma no_exit_es_handle:
  assumes "cq_res c \<noteq> - ENOBUFS" and "es_type (cq_user_data c) = es_PROV_BUF \<Longrightarrow> 0 \<le> cq_res c"
  shows "no_exit (es_handle u lfd c)"
  unfolding es_handle_def Let_def es_add_defs close_c_def
  by (intro no_exit_intros) (use assms in auto)

lemma no_exit_es_round: "es_fed u \<Longrightarrow> no_exit (es_round u lfd)"
  unfolding es_round_def for_each_cqe_def io_uring_submit_and_wait_def io_uring_cq_advance_def
  by (intro no_exit_intros no_exit_look no_exit_for no_exit_es_handle) (auto simp: es_fed_def list_all_iff)

lemma no_exit_es_listen: "es_up k u \<Longrightarrow> no_exit (es_listen k p)"
  unfolding es_listen_def host_defs
  by (intro no_exit_intros no_exit_ask) (auto dest: es_upD(1,2) simp: not_less [symmetric])

lemma no_exit_es_init_ring:
  assumes "es_up k u"
  shows "no_exit (es_init_ring u argv)"
proof -
  have "no_exit (bnd (ask (\<lambda>h. u_probe u h = Some True) Ev_probe) (\<lambda>b. if \<not> b then exit_with 0 else ret ()))"
    by (rule no_exit_ask) (simp add: es_upD(3) [OF assms] no_exit_basic)
  then show ?thesis
    unfolding es_init_ring_def queue_init_params_def probe_provide_buffers_def
    by (intro no_exit_ask) (auto split: prod.split dest: es_upD(4) [OF assms])
qed

lemma no_exit_es_register_buffers:
  assumes "es_up k u"
  shows "no_exit (es_register_buffers u)"
proof -
  have "no_exit (bnd (ask (u_wait_cqe u) (\<lambda>(r, _). Ev_wait_cqe r))
      (\<lambda>x. bnd (case x of (r, c) \<Rightarrow> andthen (see_cqe c) (ret (r, c))) (\<lambda>(_, p).
        bnd (deref_cqe p) (\<lambda>cqe. if cq_res cqe < 0 then exit_with 1 else emit Ev_cqe_seen))))"
  proof (rule no_exit_ask)
    fix h
    obtain r c where "u_wait_cqe u h = (r, Some c)" "0 \<le> cq_res c"
      using es_upD(5) [OF assms, of h] by (cases "u_wait_cqe u h") auto
    then show "no_exit (bnd (case u_wait_cqe u h of (r, c) \<Rightarrow> andthen (see_cqe c) (ret (r, c))) (\<lambda>(_, p).
        bnd (deref_cqe p) (\<lambda>cqe. if cq_res cqe < 0 then exit_with 1 else emit Ev_cqe_seen)))"
      by (simp add: see_cqe_def deref_cqe_def andthen_def bnd_assoc bnd_ret no_exit_intros)
  qed
  then show ?thesis
    unfolding es_register_buffers_def io_uring_submit_def io_uring_wait_cqe_def io_uring_cqe_seen_def bnd_assoc
    by (intro no_exit_andthen no_exit_queue no_exit_io)
qed

lemma no_exit_es_main:
  assumes "es_up k u" and "es_fed u" and "2 \<le> length argv"
  shows "no_exit (es_main k u argv n)"
  unfolding es_main_def es_add_accept_def using assms
  by (intro no_exit_intros no_exit_es_listen no_exit_es_init_ring no_exit_es_register_buffers
      no_exit_rounds no_exit_es_round) auto

section \<open>What a round does\<close>

fun is_wait :: "event \<Rightarrow> bool" where
  "is_wait (Ev_submit_and_wait _ _) = True"
| "is_wait _ = False"

fun advanced_by :: "event \<Rightarrow> nat" where
  "advanced_by (Ev_cq_advance n) = n"
| "advanced_by Ev_cqe_seen = 1"
| "advanced_by _ = 0"

text \<open>Rounds begun, and completions given back to the kernel.\<close>

definition es_waits :: "event list \<Rightarrow> nat" where
  "es_waits h = length (filter is_wait h)"

definition es_advanced :: "event list \<Rightarrow> nat" where
  "es_advanced h = sum_list (map advanced_by h)"

lemma es_count_append [simp]:
  "es_waits (g @ h) = es_waits g + es_waits h" "es_advanced (g @ h) = es_advanced g + es_advanced h"
  "es_waits [] = 0" "es_advanced [] = 0"
  "es_waits (e # h) = (if is_wait e then Suc (es_waits h) else es_waits h)"
  "es_advanced (e # h) = advanced_by e + es_advanced h"
  by (simp_all add: es_waits_def es_advanced_def)

lemma es_handle_counts:
  "wp (es_handle u lfd c) (on_ok (\<lambda>_ t. es_waits (log t) = es_waits (log s) \<and>
    es_advanced (log t) = es_advanced (log s) \<and> seen (log t) = seen (log s))) s"
  by (simp add: es_handle_def Let_def es_add_defs close_c_def wp_simps split: option.split)

lemma es_batch_counts:
  fixes s :: io
  shows "wp (for_list (\<lambda>c. andthen (emit (Ev_cqe c)) (es_handle u lfd c)) cs) (on_ok (\<lambda>_ t.
    es_waits (log t) = es_waits (log s) \<and> es_advanced (log t) = es_advanced (log s) \<and>
    seen (log t) = seen (log s) @ cs)) s"
proof (induction cs arbitrary: s)
  case (Cons c cs)
  show ?case
    unfolding for_list.simps
  proof (rule wp_bnd_ok)
    show "wp (andthen (emit (Ev_cqe c)) (es_handle u lfd c)) (on_ok (\<lambda>_ t. es_waits (log t) = es_waits (log s) \<and>
        es_advanced (log t) = es_advanced (log s) \<and> seen (log t) = seen (log s) @ [c])) s"
      using es_handle_counts [of u lfd c "s\<lparr>log := log s @ [Ev_cqe c]\<rparr>"] by (simp add: wp_andthen wp_emit)
  next
    fix a and t :: io
    assume "es_waits (log t) = es_waits (log s) \<and> es_advanced (log t) = es_advanced (log s) \<and>
      seen (log t) = seen (log s) @ [c]"
    then show "wp (for_list (\<lambda>c. andthen (emit (Ev_cqe c)) (es_handle u lfd c)) cs) (on_ok (\<lambda>_ t.
        es_waits (log t) = es_waits (log s) \<and> es_advanced (log t) = es_advanced (log s) \<and>
        seen (log t) = seen (log s) @ c # cs)) t"
      using Cons.IH [of t] by simp
  qed
qed (simp add: wp_ret)

definition es_counts :: "nat \<Rightarrow> event list \<Rightarrow> bool" where
  "es_counts m h \<longleftrightarrow> es_waits h = m \<and> es_advanced h = length (seen h)"

lemma es_round_counts:
  fixes s :: io
  assumes "es_counts m (log s)"
  shows "wp (es_round u lfd) (on_ok (\<lambda>_ t. es_counts (Suc m) (log t))) s"
proof -
  let ?s = "s\<lparr>log := log s @ [Ev_submit_and_wait 1 (u_submit_and_wait u (log s) 1)]\<rparr>"
  show ?thesis
    using assms es_batch_counts [of u lfd "u_cqes u (log ?s)" ?s]
    by (simp add: es_round_def io_uring_submit_and_wait_def io_uring_cq_advance_def wp_simps es_counts_def)
      (erule wp_mono, auto simp: on_ok_def split: outcome.splits)
qed

lemma es_rounds_counts:
  fixes s :: io
  shows "es_counts m (log s) \<Longrightarrow> wp (rounds n (es_round u lfd)) (on_ok (\<lambda>_ t. es_counts (m + n) (log t))) s"
proof (induction n arbitrary: m s)
  case (Suc n)
  show ?case
    unfolding rounds.simps by (rule wp_bnd_ok [OF es_round_counts [OF Suc.prems]]) (use Suc.IH [of "Suc m"] in simp)
qed (simp add: wp_ret)

lemma es_main_counts:
  fixes s :: io
  assumes "es_counts 0 (log s)"
  shows "wp (es_main k u argv n) (on_ok (\<lambda>_ t. es_counts n (log t))) s"
proof -
  let ?C = "\<lambda>_ t. es_counts 0 (log t)"
  have listen: "wp (es_listen k p) (on_ok ?C) t" and ring: "wp (es_init_ring u argv) (on_ok ?C) t"
    and reg: "wp (es_register_buffers u) (on_ok ?C) t" and acc: "wp (es_add_accept u lfd 0) (on_ok ?C) t"
    if "es_counts 0 (log t)" for p lfd t
    using that
    by (auto simp: es_listen_def es_init_ring_def es_register_buffers_def es_add_accept_def host_defs cqe_defs wp_simps
        es_counts_def split: prod.split option.split)
  show ?thesis
    unfolding es_main_def
    by (auto simp: wp_if wp_exit intro!: wp_bnd_ok [OF listen [OF assms]] wp_andthen_ok [OF ring]
        wp_andthen_ok [OF reg] wp_andthen_ok [OF acc] es_rounds_counts [where m = 0, simplified])
qed

text \<open>
  C5: The server keeps serving: where the start-up goes well, the kernel has buffers for it,
  the submission ring has \<open>N\<close> entries and no more than \<open>N div 2\<close> completions are visible at a
  time, \<^verbatim>\<open>main\<close> gets to its loop and through any number \<open>n\<close> of rounds of it, each of which
  submits the requests queued before, and it has then handled and given back to the kernel
  every completion that it was shown.
\<close>

theorem es_keeps_serving:
  fixes s :: io
  assumes "es_up k u" and "es_fed u" and "2 \<le> length argv" and "log s = []"
    and "has_room u N" and "0 < N" and "\<And>h. 2 * length (u_cqes u h) \<le> N"
  shows "\<exists>t. es_main k u argv n s = (Ok (), t) \<and> es_waits (log t) = n \<and> es_advanced (log t) = length (seen (log t))"
proof -
  obtain r t where run: "es_main k u argv n s = (r, t)"
    by (cases "es_main k u argv n s")
  have "snd (u_wait_cqe u h) \<noteq> None" for h
    using es_upD(5) [OF assms(1), of h] by (cases "u_wait_cqe u h") auto
  then have "sound (\<lambda>_ _. True) r t"
    using wpD [OF es_main_sound run] assms(4-7) by blast
  moreover have "fst (es_main k u argv n s) \<noteq> Exit c" for c
    using no_exit_es_main [OF assms(1-3), of n] unfolding no_exit_def by blast
  then have "r \<noteq> Exit c" for c
    by (simp add: run)
  ultimately have r: "r = Ok ()"
    by (cases r) auto
  moreover have "es_counts n (log t)"
    using wpD [OF es_main_counts run] assms(4) r by (simp add: es_counts_def)
  ultimately show ?thesis
    using run by (simp add: es_counts_def)
qed

lemma ex_uring_script: "list_all (list_all P) sc \<Longrightarrow> list_all P (u_cqes (ex_uring sc) h)"
  by (auto simp: list_all_length)

theorem es_keeps_serving_witness:
  "\<exists>t. es_main ex_sock (ex_uring ex_es_script) [''server'', ''8080''] 2 ex_io = (Ok (), t) \<and>
    es_waits (log t) = 2 \<and> es_advanced (log t) = length (seen (log t))"
proof (rule es_keeps_serving [where N = 2])
  show "es_up ex_sock (ex_uring ex_es_script)"
    by (simp add: es_up_def)
  show "es_fed (ex_uring ex_es_script)"
    unfolding es_fed_def by (intro allI ex_uring_script) (simp add: ex_es_script_def es_types)
  show "2 * length (u_cqes (ex_uring ex_es_script) h) \<le> 2" for h
    by (rule ex_uring_batch) (simp add: ex_es_script_def)
qed simp_all

end
