(* ===== verification/Coroutine_Echo.thy ===== *)
theory Coroutine_Echo
  imports Uring_Echo
begin

text \<open>
  \<^verbatim>\<open>netpoll/echo/cpp-coroutine-iouring-server/coroutine_io_uring_echo_server.cpp\<close>: the echo
  server of \<open>Uring_Echo\<close> with one coroutine for each connection. A coroutine is its promise
  and the point where it is suspended; resuming it runs it to the next such point.
\<close>

section \<open>Constants and data\<close>

definition co_BACKLOG :: int where "co_BACKLOG = 512"
definition co_MAX_MESSAGE_LEN :: nat where "co_MAX_MESSAGE_LEN = 2048"
definition co_BUFFERS_COUNT :: nat where "co_BUFFERS_COUNT = 4096"

definition co_ACCEPT :: u16 where "co_ACCEPT = 0"
definition co_READ :: u16 where "co_READ = 1"
definition co_WRITE :: u16 where "co_WRITE = 2"
definition co_PROV_BUF :: u16 where "co_PROV_BUF = 3"

definition co_group_id :: int where "co_group_id = 1337"

lemmas co_types = co_ACCEPT_def co_READ_def co_WRITE_def co_PROV_BUF_def

text \<open>
  Where \<^verbatim>\<open>handle_echo\<close> may be suspended: at its start, and where it awaits a receive or a
  send. \<^verbatim>\<open>echo_add_buffer\<close> suspends it too, but resumes it at once.
\<close>

datatype co_point = Initial | At_read | At_write

record conn_task =
  ct_info :: conn_info
  ct_res :: nat
  ct_at :: co_point

text \<open>The state: the log and the map \<^verbatim>\<open>connections\<close>.\<close>

record co = io +
  co_conns :: "int \<Rightarrow> conn_task option"

definition co_init :: co where
  "co_init = \<lparr>log = [], co_conns = \<lambda>_. None\<rparr>"

text \<open>
  \<^verbatim>\<open>connections.at (fd)\<close> throws where there is no entry, and nothing catches it. A promise
  is changed through a reference to the entry.
\<close>

definition co_at :: "int \<Rightarrow> (co, conn_task) comp" where
  "co_at fd = bnd get_state (\<lambda>s. case co_conns s fd of None \<Rightarrow> abort_c | Some ct \<Rightarrow> ret ct)"

definition co_promise :: "int \<Rightarrow> (conn_task \<Rightarrow> conn_task) \<Rightarrow> (co, unit) comp" where
  "co_promise fd f = bnd (co_at fd) (\<lambda>ct. modify (\<lambda>s. s\<lparr>co_conns := (co_conns s)(fd \<mapsto> f ct)\<rparr>))"

section \<open>The awaitables\<close>

definition echo_read :: "uring \<Rightarrow> int \<Rightarrow> nat \<Rightarrow> u32 \<Rightarrow> (co, unit) comp" where
  "echo_read u fd message_size flags = bnd (co_at fd) (\<lambda>p.
     let conn_i = (ct_info p)\<lparr>ci_type := co_READ\<rparr> in
     andthen (queue_sqe u (\<lambda>q. (u_set_flags u (u_prep u (Op_recv (fd_of conn_i) NULL message_size 0) q) flags)
         \<lparr>sq_buf_group := word_of_int co_group_id, sq_user_data := Raw (pack conn_i)\<rparr>))
       (co_promise fd (\<lambda>p. p\<lparr>ct_info := conn_i, ct_at := At_read\<rparr>)))"

definition echo_write :: "uring \<Rightarrow> int \<Rightarrow> nat \<Rightarrow> u32 \<Rightarrow> (co, unit) comp" where
  "echo_write u fd message_size flags = bnd (co_at fd) (\<lambda>p.
     let conn_i = (ct_info p)\<lparr>ci_type := co_WRITE\<rparr> in
     andthen (queue_sqe u (\<lambda>q. (u_set_flags u (u_prep u
           (Op_send (fd_of conn_i) (Obj ''bufs'' (uint (ci_bid conn_i))) message_size 0) q) flags)
         \<lparr>sq_user_data := Raw (pack conn_i)\<rparr>))
       (co_promise fd (\<lambda>p. p\<lparr>ct_info := conn_i, ct_at := At_write\<rparr>)))"

definition echo_add_buffer :: "uring \<Rightarrow> int \<Rightarrow> (co, unit) comp" where
  "echo_add_buffer u fd = bnd (co_at fd) (\<lambda>p.
     let conn_i = (ct_info p)\<lparr>ci_type := co_PROV_BUF\<rparr> in
     andthen (queue_sqe u (\<lambda>q. (u_prep u
           (Op_provide_buffers (Obj ''bufs'' (uint (ci_bid conn_i))) co_MAX_MESSAGE_LEN 1 co_group_id
             (uint (ci_bid conn_i))) q)
         \<lparr>sq_user_data := Raw (pack conn_i)\<rparr>))
       (co_promise fd (\<lambda>p. p\<lparr>ct_info := conn_i\<rparr>)))"

section \<open>The coroutine\<close>

text \<open>
  \<open>co_resume u fd\<close>: \<^verbatim>\<open>h.resume ()\<close> for the coroutine \<^verbatim>\<open>handle_echo (fd)\<close>, from where it is
  suspended to where it is suspended next, or to its end, where its frame is freed. The
  result of the receive has the type \<^verbatim>\<open>size_t\<close>, so the test \<^verbatim>\<open>size_r <= 0\<close> is a test for 0.
\<close>

definition co_resume :: "uring \<Rightarrow> int \<Rightarrow> (co, unit) comp" where
  "co_resume u fd = bnd (co_at fd) (\<lambda>p. case ct_at p of
      Initial \<Rightarrow> echo_read u fd co_MAX_MESSAGE_LEN IOSQE_BUFFER_SELECT
    | At_read \<Rightarrow>
        (if ct_res p \<le> 0 then
           andthen (echo_add_buffer u fd)
          (andthen (shutdown_c fd)
            (modify (\<lambda>s. s\<lparr>co_conns := (co_conns s)(fd := None)\<rparr>)))
         else echo_write u fd (ct_res p) 0)
    | At_write \<Rightarrow>
        andthen (echo_add_buffer u fd) (echo_read u fd co_MAX_MESSAGE_LEN IOSQE_BUFFER_SELECT))"

text \<open>
  \<^verbatim>\<open>connections.emplace (fd, handle_echo (fd))\<close>: a new coroutine, suspended at its start,
  whose promise holds what the memory of its frame held (\<open>fresh\<close>); where the map has an
  entry for the descriptor, it is kept.
\<close>

definition co_emplace :: "(event list \<Rightarrow> conn_info \<times> nat) \<Rightarrow> int \<Rightarrow> (co, unit) comp" where
  "co_emplace fresh fd = modify (\<lambda>s. if co_conns s fd \<noteq> None then s
     else s\<lparr>co_conns := (co_conns s)(fd \<mapsto>
       \<lparr>ct_info = fst (fresh (log s)), ct_res = snd (fresh (log s)), ct_at = Initial\<rparr>)\<rparr>)"

section \<open>The event loop\<close>

definition co_add_accept :: "uring \<Rightarrow> int \<Rightarrow> u32 \<Rightarrow> (co, unit) comp" where
  "co_add_accept u fd flags =
     queue_sqe u (\<lambda>q. (u_set_flags u (u_prep u
         (Op_accept fd (Auto ''main'' ''client_addr'') (Auto ''main'' ''client_len'') 0) q) flags)
       \<lparr>sq_user_data := Raw (pack (mk_info fd co_ACCEPT 0))\<rparr>)"

definition co_handle :: "uring \<Rightarrow> (event list \<Rightarrow> conn_info \<times> nat) \<Rightarrow> int \<Rightarrow> cqe \<Rightarrow> (co, unit) comp" where
  "co_handle u fresh sock_listen_fd cqe =
     (let conn_i = info_of (cq_user_data cqe); type = ci_type conn_i in
      if cq_res cqe = - ENOBUFS then exit_with 1
      else if type = co_PROV_BUF then (if cq_res cqe < 0 then exit_with 1 else ret ())
      else if type = co_ACCEPT then
        andthen (when_c (0 \<le> cq_res cqe)
            (andthen (co_emplace fresh (cq_res cqe))
            (andthen (co_promise (cq_res cqe) (\<lambda>p. p\<lparr>ct_info := (ct_info p)\<lparr>ci_fd := to_u32 (cq_res cqe)\<rparr>\<rparr>))
              (co_resume u (cq_res cqe)))))
          (co_add_accept u sock_listen_fd 0)
      else if type = co_READ then
        andthen (co_promise (fd_of conn_i) (\<lambda>p. p\<lparr>ct_info := (ct_info p)
              \<lparr>ci_bid := ucast (drop_bit 16 (cq_flags cqe))\<rparr>, ct_res := to_size (cq_res cqe)\<rparr>))
          (co_resume u (fd_of conn_i))
      else if type = co_WRITE then co_resume u (fd_of conn_i)
      else ret ())"

definition co_round :: "uring \<Rightarrow> (event list \<Rightarrow> conn_info \<times> nat) \<Rightarrow> int \<Rightarrow> (co, unit) comp" where
  "co_round u fresh sock_listen_fd =
     andthen (io_uring_submit_and_wait u 1)
       (bnd (for_each_cqe u (co_handle u fresh sock_listen_fd)) io_uring_cq_advance)"

section \<open>Start-up\<close>

definition co_listen :: "sock \<Rightarrow> int \<Rightarrow> (co, int) comp" where
  "co_listen k portno =
     bnd (socket_c k AF_INET SOCK_STREAM 0) (\<lambda>sock_listen_fd.
       andthen (emit (Ev_setsockopt sock_listen_fd))
      (bnd (bind_c k sock_listen_fd
             \<lparr>sin_family = AF_INET, sin_port = htons (to_u16 portno), sin_addr = INADDR_ANY\<rparr>) (\<lambda>r.
         if r < 0 then exit_with 1
         else bnd (listen_c k sock_listen_fd co_BACKLOG) (\<lambda>r.
           if r < 0 then exit_with 1 else ret sock_listen_fd))))"

definition co_init_ring :: "uring \<Rightarrow> (co, unit) comp" where
  "co_init_ring u =
     bnd (queue_init_params u 4096 0) (\<lambda>(r, features).
       if r < 0 then exit_with 1
       else if features AND IORING_FEAT_FAST_POLL = 0 then exit_with 0
       else bnd (probe_provide_buffers u) (\<lambda>supported.
         if \<not> supported then exit_with 0 else ret ()))"

definition co_register_buffers :: "uring \<Rightarrow> (co, unit) comp" where
  "co_register_buffers u =
     andthen (queue_sqe u (u_prep u
         (Op_provide_buffers (Obj ''bufs'' 0) co_MAX_MESSAGE_LEN co_BUFFERS_COUNT co_group_id 0)))
    (andthen (io_uring_submit u)
    (bnd (io_uring_wait_cqe u) (\<lambda>(_, p).
      bnd (deref_cqe p) (\<lambda>cqe.
        if cq_res cqe < 0 then exit_with 1 else io_uring_cqe_seen))))"

definition co_main :: "sock \<Rightarrow> uring \<Rightarrow> (event list \<Rightarrow> conn_info \<times> nat) \<Rightarrow> string list \<Rightarrow> nat \<Rightarrow> (co, unit) comp" where
  "co_main k u fresh argv n =
     (if length argv < 2 then exit_with 0
      else bnd (co_listen k (to_i32 (strtol10 (argv ! 1)))) (\<lambda>sock_listen_fd.
        andthen (co_init_ring u)
       (andthen (co_register_buffers u)
       (andthen (co_add_accept u sock_listen_fd 0)
         (rounds n (co_round u fresh sock_listen_fd))))))"

lemmas co_defs = echo_read_def echo_write_def echo_add_buffer_def co_promise_def co_at_def co_emplace_def
  co_add_accept_def

section \<open>Connections and their requests\<close>

abbreviation co_type :: "udata \<Rightarrow> u16" where
  "co_type d \<equiv> ci_type (info_of d)"

abbreviation co_accept_data :: "int \<Rightarrow> udata" where
  "co_accept_data lfd \<equiv> Raw (pack (mk_info lfd co_ACCEPT 0))"

text \<open>Descriptors that were accepted. None is ever closed, so none is given out twice.\<close>

definition co_accepted :: "event list \<Rightarrow> int set" where
  "co_accepted h = cq_res ` {c \<in> set (seen h). co_type (cq_user_data c) = co_ACCEPT \<and> 0 \<le> cq_res c}"

definition co_kernel :: "event list \<Rightarrow> cqe \<Rightarrow> bool" where
  "co_kernel h c \<longleftrightarrow> answers h c \<and> is_i32 (cq_res c) \<and>
     (co_type (cq_user_data c) = co_ACCEPT \<and> 0 \<le> cq_res c \<longrightarrow> cq_res c \<notin> co_accepted h)"

text \<open>The requests that the suspended coroutines wait for.\<close>

definition co_busy :: "(int \<Rightarrow> conn_task option) \<Rightarrow> udata multiset" where
  "co_busy T = {#Raw (pack (ct_info (the (T fd)))). fd \<in># mset_set (dom T)#}"

definition co_suspended :: "int \<Rightarrow> conn_task \<Rightarrow> bool" where
  "co_suspended fd ct \<longleftrightarrow> is_i32 fd \<and> ci_fd (ct_info ct) = to_u32 fd \<and>
     (ct_at ct = At_read \<and> ci_type (ct_info ct) = co_READ \<or>
      ct_at ct = At_write \<and> ci_type (ct_info ct) = co_WRITE)"

definition co_inv :: "int \<Rightarrow> co \<Rightarrow> bool" where
  "co_inv lfd s \<longleftrightarrow> finite (dom (co_conns s)) \<and> dom (co_conns s) \<subseteq> co_accepted (log s) \<and>
     (\<forall>fd ct. co_conns s fd = Some ct \<longrightarrow> co_suspended fd ct) \<and>
     {#d \<in># inflight (log s). co_type d \<noteq> co_PROV_BUF#} = add_mset (co_accept_data lfd) (co_busy (co_conns s))"

lemma co_busy_split:
  assumes "finite (dom T)" and "T fd = Some ct"
  shows "co_busy T = add_mset (Raw (pack (ct_info ct))) (co_busy (T(fd := None)))"
proof -
  have "mset_set (dom T) = add_mset fd (mset_set (dom T - {fd}))"
    using assms by (simp add: domI mset_set.remove)
  moreover have "{#Raw (pack (ct_info (the (T x)))). x \<in># mset_set (dom T - {fd})#} =
      {#Raw (pack (ct_info (the ((T(fd := None)) x)))). x \<in># mset_set (dom T - {fd})#}"
    using assms(1) by (intro image_mset_cong) auto
  ultimately show ?thesis
    using assms(2) by (simp add: co_busy_def)
qed

lemma co_busy_upd:
  assumes "finite (dom T)"
  shows "co_busy (T(fd \<mapsto> ct)) = add_mset (Raw (pack (ct_info ct))) (co_busy (T(fd := None)))"
  using co_busy_split [of "T(fd \<mapsto> ct)" fd ct] assms by simp

lemma co_accepted_append: "co_accepted (g @ h) = co_accepted g \<union> co_accepted h"
  by (auto simp: co_accepted_def)

lemma co_suspended_fd: "co_suspended fd ct \<Longrightarrow> fd_of (ct_info ct) = fd"
  using to_i32_id [of fd] by (simp add: co_suspended_def fd_of_def to_u32_def to_i32_def)

lemma co_invD:
  assumes "co_inv lfd s"
  shows "finite (dom (co_conns s))" "dom (co_conns s) \<subseteq> co_accepted (log s)"
    "co_conns s fd = Some ct \<Longrightarrow> co_suspended fd ct"
    "{#d \<in># inflight (log s). co_type d \<noteq> co_PROV_BUF#} = add_mset (co_accept_data lfd) (co_busy (co_conns s))"
  using assms by (simp_all add: co_inv_def)

text \<open>Who a completion is for.\<close>

lemma co_completion_cases:
  assumes "co_inv lfd s" and "answers (log s) c"
  obtains (provided) "co_type (cq_user_data c) = co_PROV_BUF"
  | (accepted) "cq_user_data c = co_accept_data lfd"
  | (waited) fd ct where "co_conns s fd = Some ct" "co_suspended fd ct" "cq_user_data c = Raw (pack (ct_info ct))"
proof (cases "co_type (cq_user_data c) = co_PROV_BUF")
  case False
  then have "cq_user_data c \<in># {#d \<in># inflight (log s). co_type d \<noteq> co_PROV_BUF#}"
    using assms(2) by (simp add: answers_def)
  then have "cq_user_data c = co_accept_data lfd \<or> cq_user_data c \<in># co_busy (co_conns s)"
    unfolding co_invD(4) [OF assms(1)] by simp
  then show thesis
  proof
    assume "cq_user_data c \<in># co_busy (co_conns s)"
    then obtain fd ct where "co_conns s fd = Some ct" "cq_user_data c = Raw (pack (ct_info ct))"
      using assms(1) by (auto simp: co_busy_def co_inv_def)
    moreover from this have "co_suspended fd ct"
      using assms(1) by (simp add: co_inv_def)
    ultimately show thesis using waited by blast
  qed (rule accepted)
qed (rule provided)

text \<open>What handling a completion does to the requests in flight.\<close>

lemma inflight_new:
  "seen es = [] \<Longrightarrow> foldl inflight_step M es = M + mset (map sq_user_data (queued es))"
proof (induction es arbitrary: M)
  case (Cons e es)
  then show ?case by (cases e) (simp_all add: inflight_step_def)
qed simp

lemma co_inv_step:
  assumes inv: "co_inv lfd s" and ok: "cqes_ok answers (log s)" "answers (log s) c"
    and t: "log t = log s @ Ev_cqe c # es" "seen es = []"
    and T: "finite (dom (co_conns t))" "dom (co_conns t) \<subseteq> co_accepted (log t)"
      "\<And>fd ct. co_conns t fd = Some ct \<Longrightarrow> co_suspended fd ct"
    and req: "add_mset (co_accept_data lfd) (co_busy (co_conns s)) - {#cq_user_data c#} +
        {#d \<in># mset (map sq_user_data (queued es)). co_type d \<noteq> co_PROV_BUF#} =
      add_mset (co_accept_data lfd) (co_busy (co_conns t))"
  shows "co_inv lfd t"
proof -
  let ?P = "\<lambda>d. co_type d \<noteq> co_PROV_BUF"
  obtain M where M: "inflight (log s) = add_mset (cq_user_data c) M"
    "inflight (log t) = foldl inflight_step M es"
    using completion_inflight [OF ok t(2)] t(1) by metis
  have "filter_mset ?P M = add_mset (co_accept_data lfd) (co_busy (co_conns s)) - {#cq_user_data c#}"
    unfolding co_invD(4) [OF inv, symmetric] M(1) by (auto simp: diff_single_trivial)
  then have "filter_mset ?P (inflight (log t)) = add_mset (co_accept_data lfd) (co_busy (co_conns t))"
    using req by (simp add: M(2) inflight_new [OF t(2)])
  with T show ?thesis by (simp add: co_inv_def)
qed

lemmas co_run = co_handle_def Let_def co_resume_def co_defs shutdown_c_def wp_simps

text \<open>A coroutine went on to its next request, ended, or was started.\<close>

lemma co_inv_resumed:
  assumes inv: "co_inv lfd s" and ok: "cqes_ok answers (log s)" "answers (log s) c"
    and T: "co_conns s fd = Some ct" "cq_user_data c = Raw (pack (ct_info ct))"
    and t: "log t = log s @ Ev_cqe c # es" "seen es = []" "co_conns t = (co_conns s)(fd \<mapsto> ct')" "co_suspended fd ct'"
    and req: "{#d \<in># mset (map sq_user_data (queued es)). co_type d \<noteq> co_PROV_BUF#} = {#Raw (pack (ct_info ct'))#}"
  shows "co_inv lfd t"
  using t co_invD [OF inv] T req co_busy_upd [of "co_conns s" fd ct'] co_busy_split [of "co_conns s" fd ct]
  by (intro co_inv_step [OF inv ok t(1,2)]) (auto simp: co_accepted_append split: if_splits)

lemma co_inv_ended:
  assumes inv: "co_inv lfd s" and ok: "cqes_ok answers (log s)" "answers (log s) c"
    and T: "co_conns s fd = Some ct" "cq_user_data c = Raw (pack (ct_info ct))"
    and t: "log t = log s @ Ev_cqe c # es" "seen es = []" "co_conns t = (co_conns s)(fd := None)"
    and req: "{#d \<in># mset (map sq_user_data (queued es)). co_type d \<noteq> co_PROV_BUF#} = {#}"
  shows "co_inv lfd t"
  using t co_invD [OF inv] T req co_busy_split [of "co_conns s" fd ct]
  by (intro co_inv_step [OF inv ok t(1,2)]) (auto simp: co_accepted_append split: if_splits)

lemma co_inv_accepted:
  assumes inv: "co_inv lfd s" and ok: "cqes_ok answers (log s)" "co_kernel (log s) c"
    and c: "cq_user_data c = co_accept_data lfd"
    and t: "log t = log s @ Ev_cqe c # es" "seen es = []"
    and new: "if 0 \<le> cq_res c
      then co_conns t = (co_conns s)(cq_res c \<mapsto> ct') \<and> co_suspended (cq_res c) ct' \<and>
        mset (map sq_user_data (queued es)) = {#Raw (pack (ct_info ct')), co_accept_data lfd#}
      else co_conns t = co_conns s \<and> mset (map sq_user_data (queued es)) = {#co_accept_data lfd#}"
  shows "co_inv lfd t"
proof -
  have a: "answers (log s) c"
    using ok by (simp add: co_kernel_def)
  have "co_conns s (cq_res c) = None" if "0 \<le> cq_res c"
    using that ok(2) c co_invD(2) [OF inv] by (auto simp: co_kernel_def)
  moreover from this have "(co_conns s)(cq_res c := None) = co_conns s" if "0 \<le> cq_res c"
    using that by (simp add: fun_upd_idem)
  ultimately show ?thesis
    using t new c co_invD [OF inv] co_busy_upd [of "co_conns s" "cq_res c" ct']
    by (intro co_inv_step [OF inv ok(1) a t(1,2)])
      (auto simp: co_accepted_append co_accepted_def co_suspended_def co_types split: if_splits)
qed

lemma co_handle_write:
  assumes u: "sqe_helpers u" and inv: "co_inv lfd s" and ok: "cqes_ok answers (log s)" "answers (log s) c"
    and T: "co_conns s fd = Some ct" "co_suspended fd ct" "cq_user_data c = Raw (pack (ct_info ct))"
    and ty: "ci_type (ct_info ct) = co_WRITE"
  shows "wp (co_handle u fresh lfd c) (only {Null_Deref} (\<lambda>_. co_inv lfd)) (s\<lparr>log := log s @ [Ev_cqe c]\<rparr>)"
proof -
  have at: "ct_at ct = At_write" "fd_of (ct_info ct) = fd"
    using T(2) ty co_suspended_fd by (auto simp: co_suspended_def co_types)
  show ?thesis
    using at T ty
    by (simp add: co_run sqe_helpersD [OF u] co_types split: option.split)
      (auto intro!: co_inv_resumed [OF inv ok T(1,3)] simp: co_suspended_def co_types)
qed

lemma co_handle_read:
  assumes u: "sqe_helpers u" and inv: "co_inv lfd s" and ok: "cqes_ok answers (log s)" "answers (log s) c"
    and T: "co_conns s fd = Some ct" "co_suspended fd ct" "cq_user_data c = Raw (pack (ct_info ct))"
    and ty: "ci_type (ct_info ct) = co_READ"
  shows "wp (co_handle u fresh lfd c) (only {Null_Deref} (\<lambda>_. co_inv lfd)) (s\<lparr>log := log s @ [Ev_cqe c]\<rparr>)"
proof -
  have at: "ct_at ct = At_read" "fd_of (ct_info ct) = fd"
    using T(2) ty co_suspended_fd by (auto simp: co_suspended_def co_types)
  show ?thesis
  proof (cases "to_size (cq_res c) = 0")
    case True
    with at T ty show ?thesis
      by (simp add: co_run sqe_helpersD [OF u] co_types split: option.split)
        (auto intro!: co_inv_ended [OF inv ok T(1,3)] simp: co_suspended_def co_types)
  next
    case False
    with at T ty show ?thesis
      by (simp add: co_run sqe_helpersD [OF u] co_types split: option.split)
        (auto intro!: co_inv_resumed [OF inv ok T(1,3)] simp: co_suspended_def co_types)
  qed
qed

lemma co_handle_accept:
  assumes u: "sqe_helpers u" and inv: "co_inv lfd s" and ok: "cqes_ok answers (log s)" "co_kernel (log s) c"
    and c: "cq_user_data c = co_accept_data lfd"
  shows "wp (co_handle u fresh lfd c) (only {Null_Deref} (\<lambda>_. co_inv lfd)) (s\<lparr>log := log s @ [Ev_cqe c]\<rparr>)"
proof -
  have "co_conns s (cq_res c) = None" if "0 \<le> cq_res c"
    using that ok(2) c co_invD(2) [OF inv] by (auto simp: co_kernel_def)
  moreover have "is_i32 (cq_res c)"
    using ok(2) by (simp add: co_kernel_def)
  ultimately show ?thesis
    using c
    by (simp add: co_run sqe_helpersD [OF u] co_types split: option.split)
      (auto intro!: co_inv_accepted [OF inv ok c] simp: co_suspended_def co_types fd_of_def)
qed

lemma co_handle_provided:
  assumes inv: "co_inv lfd s" and ok: "cqes_ok answers (log s)" "answers (log s) c"
    and c: "co_type (cq_user_data c) = co_PROV_BUF"
  shows "wp (co_handle u fresh lfd c) (only {Null_Deref} (\<lambda>_. co_inv lfd)) (s\<lparr>log := log s @ [Ev_cqe c]\<rparr>)"
proof -
  have "cq_user_data c \<notin># {#d \<in># inflight (log s). co_type d \<noteq> co_PROV_BUF#}"
    using c by simp
  then have "cq_user_data c \<notin># add_mset (co_accept_data lfd) (co_busy (co_conns s))"
    unfolding co_invD(4) [OF inv] .
  then have "co_inv lfd (s\<lparr>log := log s @ [Ev_cqe c]\<rparr>)"
    using co_invD [OF inv]
    by (intro co_inv_step [OF inv ok, where es = "[]"]) (auto simp: co_accepted_append diff_single_trivial)
  with c show ?thesis by (simp add: co_run)
qed

lemma co_handle_step:
  assumes u: "sqe_helpers u" and inv: "co_inv lfd s" and ok: "cqes_ok co_kernel (log s)" "co_kernel (log s) c"
  shows "wp (co_handle u fresh lfd c) (only {Null_Deref} (\<lambda>_. co_inv lfd)) (s\<lparr>log := log s @ [Ev_cqe c]\<rparr>)"
proof -
  have k: "cqes_ok answers (log s)" "answers (log s) c"
    using ok(2) cqes_ok_mono [OF ok(1), of answers] by (simp_all add: co_kernel_def)
  from inv k(2) show ?thesis
  proof (cases rule: co_completion_cases)
    case provided
    then show ?thesis by (rule co_handle_provided [OF inv k])
  next
    case accepted
    then show ?thesis by (rule co_handle_accept [OF u inv k(1) ok(2)])
  next
    case (waited fd ct)
    then have "ci_type (ct_info ct) = co_READ \<or> ci_type (ct_info ct) = co_WRITE"
      by (auto simp: co_suspended_def)
    then show ?thesis
      using co_handle_read [OF u inv k waited] co_handle_write [OF u inv k waited] by blast
  qed
qed

lemma extends_co_handle: "extends (co_handle u fresh lfd c)"
proof -
  have at: "extends (co_at fd)" for fd
    unfolding co_at_def abort_c_def by (intro extends_intros)
  then have pr: "extends (co_promise fd f)" for fd f
    unfolding co_promise_def by (intro extends_intros) simp_all
  have aw: "extends (echo_read u fd n fl)" "extends (echo_write u fd n fl)" "extends (echo_add_buffer u fd)" for fd n fl
    unfolding echo_read_def echo_write_def echo_add_buffer_def Let_def by (intro extends_intros at pr)+
  have res: "extends (co_resume u fd)" for fd
    unfolding co_resume_def shutdown_c_def
    by (intro extends_intros at) (auto split: co_point.split intro!: extends_intros aw)
  have em: "extends (co_emplace fresh fd)" for fd
    unfolding co_emplace_def by (intro extends_intros) simp
  show ?thesis
    unfolding co_handle_def Let_def co_add_accept_def by (intro extends_intros pr res em)
qed

interpretation co: ring_server "co_handle u fresh lfd" co_kernel "{Null_Deref}"
    "\<lambda>s. sqe_helpers u \<and> co_inv lfd s" for u fresh lfd
proof unfold_locales
  fix s :: co and c :: cqe
  assume "sqe_helpers u \<and> co_inv lfd s" "cqes_ok co_kernel (log s)" "co_kernel (log s) c"
  then show "wp (co_handle u fresh lfd c) (only {Null_Deref} (\<lambda>_ s. sqe_helpers u \<and> co_inv lfd s))
      (s\<lparr>log := log s @ [Ev_cqe c]\<rparr>)"
    using co_handle_step [of u lfd s c fresh] by simp
qed (rule extends_co_handle)

section \<open>The program\<close>

definition co_blank :: "co \<Rightarrow> bool" where
  "co_blank s \<longleftrightarrow> co_conns s = (\<lambda>_. None) \<and> queued (log s) = [] \<and> seen (log s) = []"

definition co_ready :: "co \<Rightarrow> bool" where
  "co_ready s \<longleftrightarrow> co_conns s = (\<lambda>_. None) \<and> (cqes_ok answers (log s) \<longrightarrow> inflight (log s) = {#})"

lemma wp_co_listen: "co_blank s \<Longrightarrow> wp (co_listen k p) (only UNIV (\<lambda>_. co_blank)) s"
  by (simp add: co_listen_def co_blank_def host_defs wp_simps)

lemma wp_co_init_ring: "co_blank s \<Longrightarrow> wp (co_init_ring u) (only UNIV (\<lambda>_. co_blank)) s"
  by (simp add: co_init_ring_def co_blank_def host_defs wp_simps split: prod.split)

lemma wp_co_register_buffers: "co_blank s \<Longrightarrow> wp (co_register_buffers u) (only UNIV (\<lambda>_. co_ready)) s"
  by (auto simp: co_register_buffers_def co_blank_def co_ready_def host_defs cqe_defs wp_simps inflight_def
      cqes_ok_append answers_def split: prod.split option.split)

lemma wp_co_add_accept:
  assumes "sqe_helpers u" and "co_ready s"
  shows "wp (co_add_accept u lfd 0) (only UNIV (\<lambda>_. guarded co_kernel (\<lambda>s. sqe_helpers u \<and> co_inv lfd s))) s"
proof -
  have "inflight (log s) = {#}" if "cqes_ok co_kernel (log s)"
    using assms(2) cqes_ok_mono [OF that, of answers] by (simp add: co_ready_def co_kernel_def)
  moreover have "cqes_ok answers (log s)" if "cqes_ok co_kernel (log s)"
    using cqes_ok_mono [OF that, of answers] by (simp add: co_kernel_def)
  ultimately show ?thesis
    using assms by (simp add: co_add_accept_def wp_simps guarded_def co_inv_def co_ready_def inflight_sqe
        co_busy_def co_types split: option.split)
qed

lemma wp_co_round:
  assumes "guarded co_kernel (\<lambda>s. sqe_helpers u \<and> co_inv lfd s) s"
  shows "wp (co_round u fresh lfd) (only UNIV (\<lambda>_. guarded co_kernel (\<lambda>s. sqe_helpers u \<and> co_inv lfd s))) s"
proof -
  let ?G = "guarded co_kernel (\<lambda>s. sqe_helpers u \<and> co_inv lfd s)"
  have other: "?G (t\<lparr>log := log t @ [e]\<rparr>)" if "?G t" "quiet [e]" for t e
    using that by (auto simp: guarded_def co_inv_def inflight_other co_accepted_append)
  have "wp (for_each_cqe u (co_handle u fresh lfd)) (only UNIV (\<lambda>_. ?G)) t" if "?G t" for t
    using co.for_each_admits [OF that]
    by (rule wp_mono) (auto simp: only_def admits_def guarded_def split: outcome.splits)
  with assms show ?thesis
    unfolding co_round_def io_uring_submit_and_wait_def io_uring_cq_advance_def
    by (intro wp_andthen_only [where P = "\<lambda>_. ?G"] wp_bnd_only [where P = "\<lambda>_. ?G"])
      (auto simp: wp_ask wp_emit other)
qed

lemma co_main_inv:
  assumes "sqe_helpers u"
  shows "wp (co_main k u fresh argv n) (only UNIV (\<lambda>_ t. \<exists>lfd. guarded co_kernel (co_inv lfd) t)) co_init"
proof -
  have start: "co_blank co_init"
    by (simp add: co_blank_def co_init_def)
  have "wp (rounds n (co_round u fresh lfd)) (only UNIV (\<lambda>_ t. \<exists>lfd. guarded co_kernel (co_inv lfd) t)) t"
    if "guarded co_kernel (\<lambda>s. sqe_helpers u \<and> co_inv lfd s) t" for lfd t
    by (rule wp_mono [OF wp_rounds_only [OF that wp_co_round]]) (auto simp: guarded_def elim!: only_mono)
  then show ?thesis
    unfolding co_main_def
    by (auto simp: wp_if wp_exit intro!: wp_bnd_only [OF wp_co_listen [OF start]] wp_andthen_only [OF wp_co_init_ring]
        wp_andthen_only [OF wp_co_register_buffers] wp_andthen_only [OF wp_co_add_accept [OF assms]])
qed

text \<open>
  C7: After any number of rounds each connection of the coroutine server has a coroutine
  that is suspended at its receive or its send, and the requests in flight, those that
  provide buffers aside, are one accept and for each suspended coroutine the one request it
  waits for.
\<close>

theorem co_one_request:
  assumes "sqe_helpers u" and "co_main k u fresh argv n co_init = (Ok (), t)" and "cqes_ok co_kernel (log t)"
  shows "\<exists>lfd. (\<forall>fd ct. co_conns t fd = Some ct \<longrightarrow> co_suspended fd ct) \<and>
    {#d \<in># inflight (log t). co_type d \<noteq> co_PROV_BUF#} = add_mset (co_accept_data lfd) (co_busy (co_conns t))"
  using wpD [OF co_main_inv [OF assms(1)] assms(2)] assms(3) by (auto simp: guarded_def co_inv_def)

section \<open>Coroutines and callbacks\<close>

text \<open>
  The requests of a program up to the length of a receive, which the server with callbacks
  leaves to the size of the buffers.
\<close>

fun co_shape :: "sqe_op \<Rightarrow> sqe_op" where
  "co_shape (Op_recv fd p n fl) = Op_recv fd p 0 fl"
| "co_shape op = op"

definition co_requests :: "event list \<Rightarrow> sqe_op list" where
  "co_requests h = map (co_shape \<circ> sq_op) (queued h)"

lemma co_bid: "to_u16 (bid_of_flags f) = ucast (drop_bit 16 f)"
proof -
  have "uint (drop_bit 16 f) = uint f div 2 ^ 16"
    by (simp add: drop_bit_eq_div uint_div)
  moreover have "uint f < 2 ^ 32"
    using uint_lt2p [of f] by simp
  ultimately have "is_i32 (uint (drop_bit 16 f))"
    by (intro is_i32I) (simp_all add: pos_imp_zdiv_nonneg_iff)
  then show ?thesis by (simp add: to_u16_def bid_of_flags_def unsigned_ucast_eq)
qed

lemma co_size: "is_i32 r \<Longrightarrow> 0 \<le> r \<Longrightarrow> to_size r = nat r"
  by (simp add: to_size_def is_i32_def)

lemma fd_of_upd [simp]: "fd_of (ci\<lparr>ci_type := t\<rparr>) = fd_of ci" "fd_of (ci\<lparr>ci_bid := b\<rparr>) = fd_of ci"
  by (simp_all add: fd_of_def)

lemma co_suspendedE:
  assumes "co_suspended fd ct"
  obtains (reading) "fd_of (ct_info ct) = fd" "ct_at ct = At_read" "ci_type (ct_info ct) = co_READ"
  | (writing) "fd_of (ct_info ct) = fd" "ct_at ct = At_write" "ci_type (ct_info ct) = co_WRITE"
  using assms co_suspended_fd [OF assms] by (auto simp: co_suspended_def)


text \<open>
  C34: Where a receive failed, for whatever reason but a lack of buffers, the coroutine does
  not end: its test sees the error code as a large number, and it queues a send to the
  connection with that number, close to \<open>2 ^ 64\<close>, as the length, far beyond the 2048 bytes
  of the buffer.
\<close>

theorem co_failed_read_sends:
  fixes s :: co
  assumes u: "sqe_helpers u" "u_get_sqe u (log s @ [Ev_cqe c]) = Some slot"
    and inv: "co_inv lfd s" "co_kernel (log s) c"
    and c: "co_type (cq_user_data c) = co_READ" "cq_res c < 0" "cq_res c \<noteq> - ENOBUFS"
  shows "\<exists>t q bid. co_handle u fresh lfd c (s\<lparr>log := log s @ [Ev_cqe c]\<rparr>) = (Ok (), t) \<and>
    log t = log s @ [Ev_cqe c, Ev_sqe q] \<and>
    sq_op q = Op_send (fd_of (info_of (cq_user_data c))) (Obj ''bufs'' bid) (nat (2 ^ 64 + cq_res c)) 0"
proof -
  have a: "answers (log s) c" and i32: "is_i32 (cq_res c)"
    using inv(2) by (simp_all add: co_kernel_def)
  obtain fd ct where T: "co_conns s fd = Some ct" "co_suspended fd ct" "cq_user_data c = Raw (pack (ct_info ct))"
    using c(1) by (cases rule: co_completion_cases [OF inv(1) a]) (auto simp: co_types)
  from T(2) have at: "fd_of (ct_info ct) = fd" "ct_at ct = At_read" "ci_type (ct_info ct) = co_READ"
    using c(1) T(3) by (cases rule: co_suspendedE; simp add: co_types)+
  have "to_size (cq_res c) = nat (2 ^ 64 + cq_res c)"
    using c(2) i32 mod_pos_pos_trivial [of "2 ^ 64 + cq_res c" "2 ^ 64"]
    by (simp add: to_size_def is_i32_def)
  moreover have "0 < nat (2 ^ 64 + cq_res c)"
    using i32 by (simp add: is_i32_def)
  ultimately show ?thesis
    using T at c u
    by (simp add: co_handle_def Let_def co_resume_def co_defs queue_sqe_def comp_simps co_types
        sqe_helpersD [OF u(1)])
qed

section \<open>An example run\<close>

definition ex_co_script :: "cqe list list" where
  "ex_co_script = [[\<lparr>cq_user_data = Raw (pack (mk_info 3 co_ACCEPT 0)), cq_res = 5, cq_flags = 0\<rparr>],
     [\<lparr>cq_user_data = Raw (pack (mk_info 5 co_READ 0)), cq_res = 7, cq_flags = 0x20001\<rparr>]]"

definition ex_co :: "nat \<Rightarrow> unit outcome \<times> co" where
  "ex_co n = co_main ex_sock (ex_uring ex_co_script) (\<lambda>_. (mk_info 0 0 0, 0)) [''echo'', ''8080''] n co_init"

lemmas ex_co_defs = ex_co_def co_main_def co_listen_def co_init_ring_def co_register_buffers_def co_round_def
  co_handle_def co_resume_def co_defs co_init_def host_defs cqe_defs comp_simps Let_def ex_co_script_def
  ex_waits_def co_types to_size_def mk_info_eq_iff is_i32_def

lemma ex_co_run: "fst (ex_co 1) = Ok ()" "fst (ex_co 2) = Ok ()"
  by (simp_all add: ex_co_defs)

lemma ex_info:
  "info_of (Raw 0) = mk_info 0 0 0" "(mk_info a t b)\<lparr>ci_fd := to_u32 c\<rparr> = mk_info c t b"
  "(mk_info a t b)\<lparr>ci_type := t'\<rparr> = mk_info a t' b" "(mk_info a t b)\<lparr>ci_bid := b'\<rparr> = mk_info a t b'"
  by (simp_all add: info_of_def unpack_def mk_info_def to_u32_def)

lemma co_accepted_Cons:
  "co_accepted (e # h) = (case cqe_of e of None \<Rightarrow> co_accepted h
     | Some c \<Rightarrow> if co_type (cq_user_data c) = co_ACCEPT \<and> 0 \<le> cq_res c then insert (cq_res c) (co_accepted h)
       else co_accepted h)"
  by (auto simp: co_accepted_def split: option.split)

lemma co_accepted_Nil: "co_accepted [] = {}"
  by (simp add: co_accepted_def)

lemmas ex_co_trace = ex_info co_accepted_Nil co_accepted_Cons co_accepted_append answers_def inflight_def ex_slot_def

lemma ex_co_kernel: "cqes_ok co_kernel (log (snd (ex_co 2)))"
  by (simp add: ex_co_defs ex_co_trace cqes_ok_def co_kernel_def)

lemma ex_co_conns: "dom (co_conns (snd (ex_co 2))) = {5}"
  by (simp add: ex_co_defs)

theorem co_one_request_witness:
  "(\<exists>lfd. (\<forall>fd ct. co_conns (snd (ex_co 2)) fd = Some ct \<longrightarrow> co_suspended fd ct) \<and>
    {#d \<in># inflight (log (snd (ex_co 2))). co_type d \<noteq> co_PROV_BUF#} =
      add_mset (co_accept_data lfd) (co_busy (co_conns (snd (ex_co 2))))) \<and>
    dom (co_conns (snd (ex_co 2))) = {5}"
proof -
  have run: "co_main ex_sock (ex_uring ex_co_script) (\<lambda>_. (mk_info 0 0 0, 0)) [''echo'', ''8080''] 2 co_init =
      (Ok (), snd (ex_co 2))"
    using ex_co_run(2) by (simp add: ex_co_def prod_eq_iff)
  show ?thesis
    by (intro conjI co_one_request [OF _ run ex_co_kernel] ex_co_conns) simp
qed

definition ex_co_read :: "int \<Rightarrow> cqe" where
  "ex_co_read r = \<lparr>cq_user_data = Raw (pack (mk_info 5 co_READ 0)), cq_res = r, cq_flags = 0x20001\<rparr>"

lemma ex_co_inv: "co_inv 3 (snd (ex_co 1))"
  by (simp add: ex_co_defs ex_co_trace co_inv_def co_suspended_def co_busy_def) (simp add: mk_info_def)

lemma ex_co_read_kernel: "is_i32 r \<Longrightarrow> co_kernel (log (snd (ex_co 1))) (ex_co_read r)"
  by (simp add: ex_co_defs ex_co_trace ex_co_read_def co_kernel_def)


theorem co_failed_read_sends_witness:
  "\<exists>t q bid. co_handle (ex_uring ex_co_script) (\<lambda>_. (mk_info 0 0 0, 0)) 3 (ex_co_read (-104))
      ((snd (ex_co 1))\<lparr>log := log (snd (ex_co 1)) @ [Ev_cqe (ex_co_read (-104))]\<rparr>) = (Ok (), t) \<and>
    log t = log (snd (ex_co 1)) @ [Ev_cqe (ex_co_read (-104)), Ev_sqe q] \<and>
    sq_op q = Op_send 5 (Obj ''bufs'' bid) 18446744073709551512 0"
  using co_failed_read_sends [OF ex_uring_helpers ex_uring_sel(4) ex_co_inv ex_co_read_kernel [of "-104"],
      of ex_co_script "\<lambda>_. (mk_info 0 0 0, 0)"]
  by (simp add: ex_co_read_def is_i32_def)

end
