(* ===== verification/Echo_Spec.thy ===== *)
theory Echo_Spec
  imports Ring_Trace
begin

text \<open>
  What an echo server promises, without requests, buffers or completions: a connection is
  either waiting for a message or has one to send back. \<open>echo_step\<close> is the protocol as a
  step relation, and the locale \<open>echo_server\<close> says when a handler of completions follows it;
  a handler that does so step by step does so over any run.
\<close>

section \<open>The protocol\<close>

datatype phase = Receiving | Sending nat

datatype echo_act = Connected int | Received int nat | Ended int | Sent int

type_synonym echo = "int \<Rightarrow> phase option"

inductive echo_step :: "echo \<Rightarrow> echo_act \<Rightarrow> echo \<Rightarrow> bool" where
  connect: "\<sigma> fd = None \<Longrightarrow> echo_step \<sigma> (Connected fd) (\<sigma>(fd \<mapsto> Receiving))"
| receive: "\<sigma> fd = Some Receiving \<Longrightarrow> 0 < n \<Longrightarrow> echo_step \<sigma> (Received fd n) (\<sigma>(fd \<mapsto> Sending n))"
| hang_up: "\<sigma> fd = Some Receiving \<Longrightarrow> echo_step \<sigma> (Ended fd) (\<sigma>(fd := None))"
| answer: "\<sigma> fd = Some (Sending n) \<Longrightarrow> echo_step \<sigma> (Sent fd) (\<sigma>(fd \<mapsto> Receiving))"

inductive_cases echo_stepE:
  "echo_step \<sigma> (Connected fd) \<sigma>'" "echo_step \<sigma> (Received fd n) \<sigma>'" "echo_step \<sigma> (Ended fd) \<sigma>'"
  "echo_step \<sigma> (Sent fd) \<sigma>'"

inductive echo_run :: "echo \<Rightarrow> echo_act list \<Rightarrow> echo \<Rightarrow> bool" where
  nothing: "echo_run \<sigma> [] \<sigma>"
| further: "echo_run \<sigma> as \<sigma>' \<Longrightarrow> echo_step \<sigma>' a \<sigma>'' \<Longrightarrow> echo_run \<sigma> (as @ [a]) \<sigma>''"

text \<open>The protocol as a function: which action is allowed, and what comes of it.\<close>

fun echo_next :: "echo \<Rightarrow> echo_act \<Rightarrow> echo option" where
  "echo_next \<sigma> (Connected fd) = (if \<sigma> fd = None then Some (\<sigma>(fd \<mapsto> Receiving)) else None)"
| "echo_next \<sigma> (Received fd n) =
     (if \<sigma> fd = Some Receiving \<and> 0 < n then Some (\<sigma>(fd \<mapsto> Sending n)) else None)"
| "echo_next \<sigma> (Ended fd) = (if \<sigma> fd = Some Receiving then Some (\<sigma>(fd := None)) else None)"
| "echo_next \<sigma> (Sent fd) = (case \<sigma> fd of Some (Sending n) \<Rightarrow> Some (\<sigma>(fd \<mapsto> Receiving)) | _ \<Rightarrow> None)"

lemma echo_step_iff: "echo_step \<sigma> a \<sigma>' \<longleftrightarrow> echo_next \<sigma> a = Some \<sigma>'"
  by (cases a) (auto elim!: echo_stepE intro: echo_step.intros split: if_splits option.splits phase.splits)

text \<open>
  Every message is answered before the next one is taken: of the messages received on a
  connection, all were sent back but the one that is being sent.
\<close>

definition received_on :: "int \<Rightarrow> echo_act list \<Rightarrow> nat" where
  "received_on fd as = length (filter (\<lambda>a. case a of Received x _ \<Rightarrow> x = fd | _ \<Rightarrow> False) as)"

definition sent_on :: "int \<Rightarrow> echo_act list \<Rightarrow> nat" where
  "sent_on fd as = length (filter (\<lambda>a. case a of Sent x \<Rightarrow> x = fd | _ \<Rightarrow> False) as)"

definition is_sending :: "phase option \<Rightarrow> bool" where
  "is_sending p = (case p of Some (Sending _) \<Rightarrow> True | _ \<Rightarrow> False)"

lemma echo_run_answers:
  "echo_run \<sigma> as \<sigma>' \<Longrightarrow> \<not> is_sending (\<sigma> fd) \<Longrightarrow>
    received_on fd as = sent_on fd as + (if is_sending (\<sigma>' fd) then 1 else 0)"
proof (induction rule: echo_run.induct)
  case (further \<sigma> as \<sigma>' a \<sigma>'')
  then show ?case
    by (cases a) (auto simp: received_on_def sent_on_def is_sending_def elim!: echo_stepE split: if_splits)
qed (simp add: received_on_def sent_on_def)

section \<open>Handlers that follow the protocol\<close>

locale echo_server = ring_server handle K F I
  for handle :: "cqe \<Rightarrow> ('x io_scheme, unit) comp" and K F I +
  fixes view :: "'x io_scheme \<Rightarrow> echo" and act :: "cqe \<Rightarrow> echo_act option"
  assumes follows: "I s \<Longrightarrow> cqes_ok K (log s) \<Longrightarrow> K (log s) c \<Longrightarrow>
      wp (handle c) (only F (\<lambda>_ t. case act c of None \<Rightarrow> view t = view s | Some a \<Rightarrow> echo_step (view s) a (view t)))
        (s\<lparr>log := log s @ [Ev_cqe c]\<rparr>)"
    and takes_none: "wp (handle c) (only UNIV (\<lambda>_ t. seen (log t) = seen (log s))) s"
begin

text \<open>What the completions after the first \<open>m\<close> were, in terms of the protocol.\<close>

definition acts :: "nat \<Rightarrow> 'x io_scheme \<Rightarrow> echo_act list" where
  "acts m s = List.map_filter act (drop m (seen (log s)))"

definition followed :: "nat \<Rightarrow> 'x io_scheme \<Rightarrow> bool" where
  "followed m s \<longleftrightarrow> I s \<and> m \<le> length (seen (log s)) \<and> echo_run (\<lambda>_. None) (acts m s) (view s)"

lemma followed_step:
  assumes f: "followed m s" and k: "cqes_ok K (log s)" "K (log s) c"
  shows "wp (handle c) (only F (\<lambda>_. followed m)) (s\<lparr>log := log s @ [Ev_cqe c]\<rparr>)"
proof -
  let ?s = "s\<lparr>log := log s @ [Ev_cqe c]\<rparr>"
  have I: "I s" and m: "m \<le> length (seen (log s))" and run: "echo_run (\<lambda>_. None) (acts m s) (view s)"
    using f by (simp_all add: followed_def)
  have "followed m t" if "I t" "seen (log t) = seen (log ?s)"
    "case act c of None \<Rightarrow> view t = view s | Some a \<Rightarrow> echo_step (view s) a (view t)" for t
    using that m run
    by (auto simp: followed_def acts_def map_filter_append map_filter_simps split: option.splits
        intro: echo_run.further)
  then show ?thesis
    using handle_step [OF I k] follows [OF I k] takes_none [of c ?s]
    by (auto simp: wp_iff only_def split: outcome.splits)
qed

end

sublocale echo_server \<subseteq> run: ring_server handle K F "followed m" for m
  by unfold_locales (simp_all add: followed_step handle_extends)

end
