(* ===== verification/Coroutine_Refines.thy ===== *)
theory Coroutine_Refines
  imports Coroutine_Echo Echo_Spec
begin

text \<open>
  The coroutine server follows the protocol of \<open>Echo_Spec\<close>: where a coroutine is suspended is
  the phase of its connection, and each completion is one action of the protocol or none.
\<close>

section \<open>The view of the server\<close>

definition co_phase :: "conn_task \<Rightarrow> phase" where
  "co_phase ct = (case ct_at ct of At_write \<Rightarrow> Sending (ct_res ct) | _ \<Rightarrow> Receiving)"

definition co_view :: "co \<Rightarrow> echo" where
  "co_view s fd = map_option co_phase (co_conns s fd)"

definition co_act :: "cqe \<Rightarrow> echo_act option" where
  "co_act c = (let conn_i = info_of (cq_user_data c) in
     if ci_type conn_i = co_ACCEPT then (if 0 \<le> cq_res c then Some (Connected (cq_res c)) else None)
     else if ci_type conn_i = co_READ then
       Some (if cq_res c = 0 then Ended (fd_of conn_i) else Received (fd_of conn_i) (nat (cq_res c)))
     else if ci_type conn_i = co_WRITE then Some (Sent (fd_of conn_i))
     else None)"

text \<open>The kernel, and receives that do not fail.\<close>

definition co_honest :: "event list \<Rightarrow> cqe \<Rightarrow> bool" where
  "co_honest h c \<longleftrightarrow> co_kernel h c \<and> (co_type (cq_user_data c) = co_READ \<longrightarrow> 0 \<le> cq_res c)"

section \<open>Each completion is a step of the protocol\<close>

lemma co_follows:
  fixes s :: co
  assumes u: "sqe_helpers u" and inv: "co_inv lfd s" and c: "co_honest (log s) c"
  shows "wp (co_handle u fresh lfd c) (only {Null_Deref} (\<lambda>_ t. case co_act c of
      None \<Rightarrow> co_view t = co_view s | Some a \<Rightarrow> echo_step (co_view s) a (co_view t))) (s\<lparr>log := log s @ [Ev_cqe c]\<rparr>)"
proof -
  have k: "answers (log s) c" "is_i32 (cq_res c)" "co_kernel (log s) c"
    using c by (simp_all add: co_honest_def co_kernel_def)
  note run = co_run sqe_helpersD [OF u] co_act_def co_types co_phase_def echo_step_iff
  from inv k(1) show ?thesis
  proof (cases rule: co_completion_cases)
    case provided
    then show ?thesis by (auto simp: run co_view_def)
  next
    case accepted
    have "co_conns s (cq_res c) = None" if "0 \<le> cq_res c"
      using that k(3) accepted co_invD(2) [OF inv] by (auto simp: co_kernel_def)
    with accepted show ?thesis
      by (auto simp: run co_view_def fun_eq_iff split: option.split)
  next
    case (waited fd ct)
    from waited(2) show ?thesis
    proof (cases rule: co_suspendedE)
      case reading
      moreover from this have "to_size (cq_res c) = nat (cq_res c)" "0 \<le> cq_res c"
        using c waited(3) k(2) by (simp_all add: co_honest_def co_size)
      ultimately show ?thesis
        using waited(1,3) by (auto simp: run co_view_def fun_eq_iff split: option.split)
    next
      case writing
      with waited(1,3) show ?thesis
        by (auto simp: run co_view_def fun_eq_iff split: option.split)
    qed
  qed
qed

lemma co_takes_none:
  fixes s :: co
  shows "wp (co_handle u fresh lfd c) (only UNIV (\<lambda>_ t. seen (log t) = seen (log s))) s"
proof -
  let ?Q = "\<lambda>s. only UNIV (\<lambda>(_::unit) (t::co). seen (log t) = seen (log s))"
  have aw: "wp (echo_read u fd n fl) (?Q s) s" "wp (echo_write u fd n fl) (?Q s) s" "wp (echo_add_buffer u fd) (?Q s) s"
    "wp (co_promise fd f) (?Q s) s" "wp (co_emplace fresh fd) (?Q s) s" "wp (co_add_accept u fd fl) (?Q s) s"
    "wp (shutdown_c fd) (?Q s) s" "wp (modify (\<lambda>s. s\<lparr>co_conns := T s\<rparr>)) (?Q s) s"
    for fd n fl f T and s :: co
    by (simp_all add: co_defs Let_def shutdown_c_def wp_simps split: option.split)
  have seq: "wp (andthen m k) (?Q s) s" if "\<And>s. wp m (?Q s) s" "\<And>s. wp k (?Q s) s" for m k :: "(co, unit) comp" and s
  proof (rule wp_andthen_only [OF that(1)])
    fix t :: co
    assume "seen (log t) = seen (log s)"
    with that(2) [of t] show "wp k (?Q s) t" by simp
  qed
  have res: "wp (co_resume u fd) (?Q s) s" for fd s
    by (auto simp: co_resume_def co_at_def wp_bnd wp_get_state wp_abort wp_ret aw split: option.split co_point.split
        intro!: seq)
  show ?thesis
    unfolding co_handle_def Let_def when_c_def
    by (auto simp: wp_exit wp_ret aw res intro!: seq)
qed

interpretation co_echo: echo_server "co_handle u fresh lfd" co_honest "{Null_Deref}"
    "\<lambda>s. sqe_helpers u \<and> co_inv lfd s" co_view co_act for u fresh lfd
proof unfold_locales
  fix s :: co and c :: cqe
  assume I: "sqe_helpers u \<and> co_inv lfd s" and k: "cqes_ok co_honest (log s)" "co_honest (log s) c"
  have "cqes_ok co_kernel (log s)" "co_kernel (log s) c"
    using k(2) cqes_ok_mono [OF k(1), of co_kernel] by (simp_all add: co_honest_def)
  with I show "wp (co_handle u fresh lfd c) (only {Null_Deref} (\<lambda>_ s. sqe_helpers u \<and> co_inv lfd s))
      (s\<lparr>log := log s @ [Ev_cqe c]\<rparr>)"
    using co_handle_step [of u lfd s c fresh] by simp
qed (simp_all add: extends_co_handle co_takes_none co_follows)

section \<open>The program\<close>

definition co_followed :: "uring \<Rightarrow> int \<Rightarrow> co \<Rightarrow> bool" where
  "co_followed u lfd s \<longleftrightarrow> (cqes_ok co_honest (log s) \<longrightarrow> sqe_helpers u \<and> co_inv lfd s \<and>
     1 \<le> length (seen (log s)) \<and> echo_run (\<lambda>_. None) (List.map_filter co_act (drop 1 (seen (log s)))) (co_view s))"

lemma co_followed_guarded: "co_followed u lfd = guarded co_honest (co_echo.followed u lfd 1)"
  by (auto simp: fun_eq_iff co_followed_def guarded_def co_echo.followed_def co_echo.acts_def)

lemma co_honest_kernel: "cqes_ok co_honest h \<Longrightarrow> cqes_ok co_kernel h"
  by (erule cqes_ok_mono) (simp add: co_honest_def)

lemma co_inv_quiet: "quiet [e] \<Longrightarrow> co_inv lfd (t\<lparr>log := log t @ [e]\<rparr>) = co_inv lfd t"
  by (auto simp: co_inv_def inflight_other co_accepted_append co_accepted_Cons co_accepted_Nil)

lemma co_view_log: "co_view (t\<lparr>log := h\<rparr>) = co_view t"
  by (simp add: co_view_def fun_eq_iff)

lemma co_view_none: "co_conns t = (\<lambda>_. None) \<Longrightarrow> co_view t = (\<lambda>_. None)"
  by (simp add: co_view_def fun_eq_iff)

lemma wp_co_followed_start:
  assumes u: "sqe_helpers u" and s: "co_blank s"
  shows "wp (andthen (co_register_buffers u) (co_add_accept u lfd 0)) (only UNIV (\<lambda>_. co_followed u lfd)) s"
proof -
  have "wp (co_register_buffers u) (only UNIV (\<lambda>_ t. co_ready t \<and> length (seen (log t)) = 1)) s"
    using wp_co_register_buffers [OF s, of u] s
    by (auto simp: wp_iff only_def co_register_buffers_def co_blank_def host_defs cqe_defs comp_simps
        split: outcome.splits option.splits prod.splits if_splits)
  then show ?thesis
  proof (rule wp_andthen_only)
    fix t
    assume t: "co_ready t \<and> length (seen (log t)) = 1"
    then have "wp (co_add_accept u lfd 0) (only UNIV (\<lambda>_ t. length (seen (log t)) = 1 \<and> co_conns t = (\<lambda>_. None))) t"
      by (simp add: co_add_accept_def wp_simps co_ready_def split: option.split)
    with wp_co_add_accept [OF u conjunct1 [OF t], of lfd]
    show "wp (co_add_accept u lfd 0) (only UNIV (\<lambda>_. co_followed u lfd)) t"
      by (auto simp: wp_iff only_def co_followed_def guarded_def co_view_none map_filter_simps
          echo_run.nothing split: outcome.splits dest: co_honest_kernel)
  qed
qed

lemma wp_co_followed_round:
  assumes "co_followed u lfd s"
  shows "wp (co_round u fresh lfd) (only UNIV (\<lambda>_. co_followed u lfd)) s"
proof -
  have other: "co_followed u lfd (t\<lparr>log := log t @ [e]\<rparr>)" if "co_followed u lfd t" "quiet [e]" for t e
    using that by (auto simp: co_followed_def co_view_log co_inv_quiet)
  have "wp (for_each_cqe u (co_handle u fresh lfd)) (only UNIV (\<lambda>_. co_followed u lfd)) t" if "co_followed u lfd t" for t
    using co_echo.run.for_each_admits [OF that [unfolded co_followed_guarded]]
    by (rule wp_mono) (auto simp: only_def admits_def co_followed_guarded guarded_def split: outcome.splits)
  with assms show ?thesis
    unfolding co_round_def io_uring_submit_and_wait_def io_uring_cq_advance_def
    by (intro wp_andthen_only [where P = "\<lambda>_. co_followed u lfd"] wp_bnd_only [where P = "\<lambda>_. co_followed u lfd"])
      (auto simp: wp_ask wp_emit other)
qed

lemma co_main_followed:
  assumes u: "sqe_helpers u"
  shows "wp (co_main k u fresh argv n) (only UNIV (\<lambda>_ t. \<exists>lfd. co_followed u lfd t)) co_init"
proof -
  have start: "co_blank co_init"
    by (simp add: co_blank_def co_init_def)
  have loop: "wp (rounds n (co_round u fresh lfd)) (only UNIV (\<lambda>_ t. \<exists>lfd. co_followed u lfd t)) t"
    if "co_followed u lfd t" for lfd t
    by (rule wp_mono [OF wp_rounds_only [OF that wp_co_followed_round]]) (auto elim!: only_mono)
  have main: "co_main k u fresh argv n = (if length argv < 2 then exit_with 0
      else bnd (co_listen k (to_i32 (strtol10 (argv ! 1)))) (\<lambda>lfd.
        andthen (co_init_ring u) (andthen (andthen (co_register_buffers u) (co_add_accept u lfd 0))
          (rounds n (co_round u fresh lfd)))))"
    by (simp add: co_main_def andthen_def bnd_assoc)
  show ?thesis
    unfolding main
    by (auto simp: wp_if wp_exit intro!: wp_bnd_only [OF wp_co_listen [OF start]] wp_andthen_only [OF wp_co_init_ring]
        wp_andthen_only [OF wp_co_followed_start [OF u]] loop)
qed


lemma ex_co_honest: "cqes_ok co_honest (log (snd (ex_co 2)))"
  by (simp add: ex_co_defs ex_co_trace cqes_ok_def co_kernel_def co_honest_def)

lemma ex_co_acts: "List.map_filter co_act (tl (seen (log (snd (ex_co 2))))) = [Connected 5, Received 5 7]"
  by (simp add: ex_co_defs ex_co_trace co_act_def map_filter_simps)


end
