(* ===== verification/Uring_Demos.thy ===== *)
theory Uring_Demos
  imports IO_Op Sock_Buffer
begin

text \<open>
  The four demos on io_uring, on top of the functions of \<^verbatim>\<open>demo/io_op.c\<close>: one
  buffer for all connections (\<open>rd_\<close>, \<^verbatim>\<open>tcp_iouring_send_recvmsg_echo_demo.c\<close>), a pool of
  provided buffers with messages (\<open>pd_\<close>, \<^verbatim>\<open>tcp_iouring_send_recvmsg_provide_buff_echo_demo.c\<close>)
  and without (\<open>sd_\<close>, \<^verbatim>\<open>tcp_iouring_send_recv_provide_buff_echo_demo.c\<close>), and epoll with
  receives and sends through a ring (\<open>eu_\<close>, \<^verbatim>\<open>tcp_epoll_send_recvmsg_iouring_echo_demo.c\<close>).
\<close>

section \<open>What the demos share\<close>

definition sqp_flags :: "string list \<Rightarrow> u32" where
  "sqp_flags argv = (if 3 \<le> length argv \<and> argv ! 2 = ''sqp'' then IORING_SETUP_SQPOLL else 0)"

definition demo_init_ring :: "uring \<Rightarrow> nat \<Rightarrow> u32 \<Rightarrow> ('x io_scheme, unit) comp" where
  "demo_init_ring u entries flags =
     bnd (queue_init_params u entries flags) (\<lambda>(r, features).
       if r < 0 then exit_with 1
       else if features AND IORING_FEAT_FAST_POLL = 0 then exit_with 0
       else bnd (probe_provide_buffers u) (\<lambda>supported.
         if \<not> supported then exit_with 0 else ret ()))"

definition demo_listen :: "sock \<Rightarrow> string list \<Rightarrow> ('x io_scheme, int) comp" where
  "demo_listen k argv =
     bnd (create_server_socket k (atoi (argv ! 1))) (\<lambda>sockfd.
       if sockfd = -1 then exit_with 1 else ret sockfd)"

abbreviation demo_client :: ptr where "demo_client \<equiv> Auto ''main'' ''client_addr''"
abbreviation demo_client_len :: ptr where "demo_client_len \<equiv> Auto ''main'' ''client_len''"
abbreviation demo_buffer :: ptr where "demo_buffer \<equiv> Auto ''main'' ''buffer''"

definition demo_add_accept :: "uring \<Rightarrow> int \<Rightarrow> ('x io_scheme, unit) comp" where
  "demo_add_accept u sockfd = add_accept u sockfd demo_client demo_client_len 0"

text \<open>A client that is gone: the listening socket is shut down, the connection closed.\<close>

definition demo_hang_up :: "int \<Rightarrow> conn_info \<Rightarrow> ('x io_scheme, unit) comp" where
  "demo_hang_up sockfd conn_i = andthen (shutdown_c sockfd) (close_c (fd_of conn_i))"

text \<open>Submit, wait for one completion, and handle it.\<close>

definition demo_round :: "uring \<Rightarrow> (cqe \<Rightarrow> ('x io_scheme, unit) comp) \<Rightarrow> ('x io_scheme, unit) comp" where
  "demo_round u handle =
     andthen (io_uring_submit u)
       (bnd (io_uring_wait_cqe u) (\<lambda>(r, p).
         if r < 0 then exit_with 1 else bnd (deref_cqe p) handle))"

section \<open>One buffer for all connections\<close>

definition rd_handle :: "uring \<Rightarrow> int \<Rightarrow> cqe \<Rightarrow> ('x io_scheme, unit) comp" where
  "rd_handle u sockfd cqe =
     (let conn_i = info_of (cq_user_data cqe); type = ci_type conn_i in
      if type = ACCEPT then
        andthen io_uring_cqe_seen
          (if cq_res cqe < 0 then ret ()
           else andthen (demo_add_accept u sockfd)
             (add_recvmsg u (cq_res cqe) demo_buffer MAX_MESSAGE_LEN 0))
      else if type = READ then
        andthen io_uring_cqe_seen
          (if cq_res cqe \<le> 0 \<or> cq_res cqe = - ENOBUFS \<or> cq_res cqe = - EMSGSIZE
           then demo_hang_up sockfd conn_i
           else add_sendmsg u (fd_of conn_i) demo_buffer (nat (cq_res cqe)) 0)
      else if type = WRITE then
        andthen io_uring_cqe_seen
          (if cq_res cqe \<le> 0 then demo_hang_up sockfd conn_i
           else add_recvmsg u (fd_of conn_i) demo_buffer MAX_MESSAGE_LEN 0)
      else io_uring_cqe_seen)"

definition rd_round :: "uring \<Rightarrow> int \<Rightarrow> ('x io_scheme, unit) comp" where
  "rd_round u sockfd = demo_round u (rd_handle u sockfd)"

definition rd_main :: "sock \<Rightarrow> uring \<Rightarrow> string list \<Rightarrow> nat \<Rightarrow> ('x io_scheme, unit) comp" where
  "rd_main k u argv n =
     (if length argv < 2 then exit_with 1
      else andthen (demo_init_ring u 10240 0)
        (bnd (demo_listen k argv) (\<lambda>sockfd.
          andthen (demo_add_accept u sockfd) (rounds n (rd_round u sockfd)))))"

section \<open>A pool of buffers, with messages\<close>

definition pd_group_id :: u32 where "pd_group_id = 1336"

text \<open>
  \<^verbatim>\<open>sock_conn_fd\<close> is declared in the body of the \<^verbatim>\<open>switch\<close> and set where an accept is
  handled; a jump to another case leaves it without a value, and where a send was
  completed it is read. After a provided buffer the code falls through to the default; a
  failure leaves the \<^verbatim>\<open>switch\<close> without marking the completion as seen.
\<close>

definition pd_handle :: "uring \<Rightarrow> int \<Rightarrow> cqe \<Rightarrow> ('x io_scheme, unit) comp" where
  "pd_handle u sockfd cqe =
     (let conn_i = info_of (cq_user_data cqe); type = ci_type conn_i in
      if type = ACCEPT then
        andthen io_uring_cqe_seen
          (if cq_res cqe < 0 then ret ()
           else andthen (demo_add_accept u sockfd)
             (add_recvmsg_from_group_buff u (cq_res cqe) pd_group_id MAX_MESSAGE_LEN IOSQE_BUFFER_SELECT))
      else if type = READ then
        andthen io_uring_cqe_seen
          (if cq_res cqe \<le> 0 \<or> cq_res cqe = - ENOBUFS \<or> cq_res cqe = - EMSGSIZE
           then andthen (add_provide_buf u (to_u16 (bid_of_flags (cq_flags cqe))) pd_group_id)
             (demo_hang_up sockfd conn_i)
           else add_sendmsg_from_group_buff u (fd_of conn_i) (to_u16 (bid_of_flags (cq_flags cqe)))
             (nat (cq_res cqe)) 0)
      else if type = WRITE then
        andthen (add_provide_buf u (ci_bid conn_i) pd_group_id)
          (andthen io_uring_cqe_seen
            (if cq_res cqe \<le> 0 then demo_hang_up sockfd conn_i else fail Uninitialised))
      else if type = PROV_BUF \<and> cq_res cqe < 0 then ret ()
      else io_uring_cqe_seen)"

definition pd_round :: "uring \<Rightarrow> int \<Rightarrow> ('x io_scheme, unit) comp" where
  "pd_round u sockfd = demo_round u (pd_handle u sockfd)"

definition pd_main :: "sock \<Rightarrow> uring \<Rightarrow> string list \<Rightarrow> nat \<Rightarrow> ('x io_scheme, unit) comp" where
  "pd_main k u argv n =
     (if length argv < 2 then exit_with 1
      else andthen (demo_init_ring u 10240 0)
        (andthen (provide_buffers u (uint pd_group_id))
          (bnd (demo_listen k argv) (\<lambda>sockfd.
            andthen (demo_add_accept u sockfd) (rounds n (pd_round u sockfd))))))"

section \<open>A pool of buffers, without messages\<close>

definition sd_group_id :: u32 where "sd_group_id = 1337"

definition sd_handle :: "uring \<Rightarrow> int \<Rightarrow> cqe \<Rightarrow> ('x io_scheme, unit) comp" where
  "sd_handle u sockfd cqe =
     (let conn_i = info_of (cq_user_data cqe); type = ci_type conn_i in
      if cq_res cqe = - ENOBUFS then exit_with 1
      else if type = ACCEPT then
        (if cq_res cqe < 0 then ret ()
         else andthen (demo_add_accept u sockfd)
           (add_recv_from_group_buff u (cq_res cqe) sd_group_id MAX_MESSAGE_LEN IOSQE_BUFFER_SELECT))
      else if type = READ then
        (if cq_res cqe = - EFAULT \<or> cq_res cqe = - ENOBUFS \<or> cq_res cqe = - EMSGSIZE \<or> cq_res cqe \<le> 0
         then andthen (add_provide_buf u (to_u16 (bid_of_flags (cq_flags cqe))) sd_group_id)
           (demo_hang_up sockfd conn_i)
         else add_send_from_group_buff u (fd_of conn_i) (to_u16 (bid_of_flags (cq_flags cqe)))
           (nat (cq_res cqe)) 0)
      else if type = WRITE then
        andthen (add_provide_buf u (ci_bid conn_i) sd_group_id)
          (if cq_res cqe \<le> 0 then demo_hang_up sockfd conn_i else fail Uninitialised)
      else ret ())"

text \<open>
  \<^verbatim>\<open>io_uring_wait_cqe (&ring, 1)\<close>: the second argument is where the completion is stored,
  and 1 is not the address of an object.
\<close>

definition sd_wait :: "uring \<Rightarrow> ('x io_scheme, int) comp" where
  "sd_wait u = bnd (ask (u_wait_cqe u) (\<lambda>(r, _). Ev_wait_cqe r)) (\<lambda>(r, c).
     case c of None \<Rightarrow> ret r | Some _ \<Rightarrow> fail Wild_Write)"

definition sd_round :: "uring \<Rightarrow> int \<Rightarrow> ('x io_scheme, unit) comp" where
  "sd_round u sockfd =
     bnd (sd_wait u) (\<lambda>r.
       if r < 0 then exit_with 1
       else bnd (for_each_cqe u (sd_handle u sockfd)) io_uring_cq_advance)"

definition sd_main :: "sock \<Rightarrow> uring \<Rightarrow> string list \<Rightarrow> nat \<Rightarrow> ('x io_scheme, unit) comp" where
  "sd_main k u argv n =
     (if length argv < 2 then exit_with 1
      else andthen (demo_init_ring u IORING_MAX_ENTRIES (sqp_flags argv))
        (andthen (provide_buffers u (uint sd_group_id))
          (bnd (demo_listen k argv) (\<lambda>sockfd.
            andthen (demo_add_accept u sockfd) (rounds n (sd_round u sockfd))))))"

section \<open>epoll, with receives and sends through a ring\<close>

text \<open>
  A request with a message header in a block of \<^verbatim>\<open>main\<close>, from its queueing to its
  completion. The completion is read after it was marked as seen, when the ring may
  already hold another one in its place.
\<close>

definition eu_request :: "uring \<Rightarrow> sqe_op \<Rightarrow> ptr \<Rightarrow> iovec \<Rightarrow> ('x io_scheme, int) comp" where
  "eu_request u op msg iov =
     andthen (emit (Ev_auto msg iov))
    (andthen (queue_sqe u (u_prep u op))
    (andthen (io_uring_submit u)
    (bnd (io_uring_wait_cqe u) (\<lambda>(_, p).
      bnd (deref_cqe p) (\<lambda>cqe.
        andthen io_uring_cqe_seen
          (bnd (look (\<lambda>h. u_reread u h cqe)) (\<lambda>c. ret (cq_res c))))))))"

definition eu_serve :: "sock \<Rightarrow> uring \<Rightarrow> int \<Rightarrow> int \<Rightarrow> ('x io_scheme, unit) comp" where
  "eu_serve k u epollfd newsockfd =
     bnd (eu_request u (Op_recvmsg newsockfd (Auto ''main'' ''msg'') 0) (Auto ''main'' ''msg'')
         \<lparr>iov_base = demo_buffer, iov_len = MAX_MESSAGE_LEN - 1\<rparr>) (\<lambda>bytes_received.
       if bytes_received \<le> 0 then
         andthen (epoll_ctl_c k epollfd EPOLL_CTL_DEL newsockfd 0) (shutdown_c newsockfd)
       else bnd (eu_request u (Op_sendmsg newsockfd (Auto ''main'' ''s_msg'') 0) (Auto ''main'' ''s_msg'')
           \<lparr>iov_base = demo_buffer, iov_len = nat bytes_received\<rparr>) (\<lambda>bytes_sent.
         if bytes_sent < 0 then close_c newsockfd else ret ()))"

definition eu_handle :: "sock \<Rightarrow> uring \<Rightarrow> int \<Rightarrow> int \<Rightarrow> epoll_event \<Rightarrow> ('x io_scheme, unit) comp" where
  "eu_handle k u sockfd epollfd ev =
     (if ep_events ev AND EPOLLERR \<noteq> 0 \<or> ep_events ev AND EPOLLHUP \<noteq> 0 then close_c (ep_fd ev)
      else if ep_fd ev = sockfd then
        bnd (accept_c k sockfd 0) (\<lambda>sock_conn_fd.
          if sock_conn_fd = -1 then exit_with 1
          else bnd (epoll_ctl_c k epollfd EPOLL_CTL_ADD sock_conn_fd (EPOLLIN OR EPOLLET)) (\<lambda>r.
            if r = -1 then exit_with 1 else ret ()))
      else eu_serve k u epollfd (ep_fd ev))"

definition eu_round :: "sock \<Rightarrow> uring \<Rightarrow> int \<Rightarrow> int \<Rightarrow> ('x io_scheme, unit) comp" where
  "eu_round k u sockfd epollfd = epoll_round k epollfd MAX_EVENTS (eu_handle k u sockfd epollfd)"

definition eu_watch :: "sock \<Rightarrow> int \<Rightarrow> ('x io_scheme, int) comp" where
  "eu_watch k sockfd =
     bnd (epoll_create_c k 0) (\<lambda>epollfd.
       if epollfd = -1 then exit_with 1
       else bnd (epoll_ctl_c k epollfd EPOLL_CTL_ADD sockfd (EPOLLIN OR EPOLLET)) (\<lambda>r.
         if r = -1 then exit_with 1 else ret epollfd))"

definition eu_main :: "sock \<Rightarrow> uring \<Rightarrow> string list \<Rightarrow> nat \<Rightarrow> ('x io_scheme, unit) comp" where
  "eu_main k u argv n =
     (if length argv < 2 then exit_with 1
      else andthen (demo_init_ring u 10240 (sqp_flags argv))
        (bnd (demo_listen k argv) (\<lambda>sockfd.
          bnd (eu_watch k sockfd) (\<lambda>epollfd. rounds n (eu_round k u sockfd epollfd)))))"

lemmas demo_defs = demo_init_ring_def demo_listen_def demo_add_accept_def demo_hang_up_def demo_round_def

section \<open>Messages along the log\<close>

text \<open>
  The message headers that were written; each send that was queued, with the memory its
  header names; each completed receive, with the memory its header named and the length
  received.
\<close>

definition header_step :: "(ptr \<Rightarrow> iovec option) \<Rightarrow> event \<Rightarrow> ptr \<Rightarrow> iovec option" where
  "header_step H e = (case e of Ev_auto p v \<Rightarrow> H(p \<mapsto> v) | _ \<Rightarrow> H)"

definition headers :: "event list \<Rightarrow> ptr \<Rightarrow> iovec option" where
  "headers h = foldl header_step (\<lambda>_. None) h"

definition msg_sent :: "event list \<Rightarrow> event \<Rightarrow> (int \<times> iovec) list" where
  "msg_sent h e = (case e of
      Ev_sqe q \<Rightarrow> (case sq_op q of
          Op_sendmsg fd p fl \<Rightarrow> (case headers h p of None \<Rightarrow> [] | Some v \<Rightarrow> [(fd, v)])
        | _ \<Rightarrow> [])
    | _ \<Rightarrow> [])"

definition msg_received :: "event list \<Rightarrow> event \<Rightarrow> (int \<times> iovec) list" where
  "msg_received h e = (case e of
      Ev_cqe c \<Rightarrow> (case last_op h (cq_user_data c) of
          Some (Op_recvmsg fd p fl) \<Rightarrow> (case headers h p of
              None \<Rightarrow> []
            | Some v \<Rightarrow> if 0 < cq_res c then [(fd, v\<lparr>iov_len := nat (cq_res c)\<rparr>)] else [])
        | _ \<Rightarrow> [])
    | _ \<Rightarrow> [])"

text \<open>What each event adds, given the events before it.\<close>

primrec along :: "(event list \<Rightarrow> event \<Rightarrow> 'a list) \<Rightarrow> event list \<Rightarrow> event list \<Rightarrow> 'a list" where
  "along f pre [] = []"
| "along f pre (e # es) = f pre e @ along f (pre @ [e]) es"

definition msg_sends :: "event list \<Rightarrow> (int \<times> iovec) list" where
  "msg_sends h = along msg_sent [] h"

definition msg_receives :: "event list \<Rightarrow> (int \<times> iovec) list" where
  "msg_receives h = along msg_received [] h"

lemma along_append: "along f pre (g @ h) = along f pre g @ along f (pre @ g) h"
  by (induction g arbitrary: pre) simp_all

lemma msg_append [simp]:
  "msg_sends (g @ h) = msg_sends g @ along msg_sent g h"
  "msg_receives (g @ h) = msg_receives g @ along msg_received g h"
  "headers (g @ h) = foldl header_step (headers g) h"
  by (simp_all add: msg_sends_def msg_receives_def headers_def along_append)

lemma msg_Nil [simp]: "msg_sends [] = []" "msg_receives [] = []" "headers [] p = None"
  by (simp_all add: msg_sends_def msg_receives_def headers_def)

text \<open>A completion answers a request in flight, and its result is a 32-bit integer.\<close>

definition msg_kernel :: "event list \<Rightarrow> cqe \<Rightarrow> bool" where
  "msg_kernel h c \<longleftrightarrow> answers h c \<and> is_i32 (cq_res c)"

lemma answered_op:
  assumes "answers h c"
  obtains op where "last_op h (cq_user_data c) = Some op"
proof -
  from assms have "cq_user_data c \<in> sq_user_data ` set (queued h)"
    unfolding answers_def inflight_def by (auto dest: in_diffD)
  with last_op_queued that show thesis by blast
qed

text \<open>Events that are no request, no completion and no message header.\<close>

definition idle :: "event \<Rightarrow> bool" where
  "idle e \<longleftrightarrow> sqe_of e = None \<and> cqe_of e = None \<and> (case e of Ev_auto _ _ \<Rightarrow> False | _ \<Rightarrow> True)"

lemma idle_steps:
  assumes "idle e"
  shows "header_step H e = H" "last_op_step L e = L" "msg_sent h e = []" "msg_received h e = []"
  using assms by (cases e; simp add: idle_def header_step_def last_op_step_def msg_sent_def msg_received_def)+

lemma idle_trace:
  assumes "list_all idle es"
  shows "headers (h @ es) = headers h" "last_op (h @ es) = last_op h"
    "msg_sends (h @ es) = msg_sends h" "msg_receives (h @ es) = msg_receives h"
  using assms by (induction es arbitrary: h rule: rev_induct) (simp_all add: idle_steps flip: append_assoc)

lemma wp_demo_start:
  "wp (demo_init_ring u n fl) (only UNIV (\<lambda>_ t. \<exists>es. log t = log s @ es \<and> list_all idle es)) s"
  "wp (demo_listen k argv) (only UNIV (\<lambda>_ t. \<exists>es. log t = log s @ es \<and> list_all idle es)) s"
  by (auto simp: demo_init_ring_def demo_listen_def create_server_socket_def host_defs wp_simps idle_def
      split: prod.split)

lemmas msg_steps = header_step_def msg_sent_def msg_received_def last_op_step_def

section \<open>A loop that waits for one completion\<close>

locale one_at_a_time = ring_server handle K F I
  for handle :: "cqe \<Rightarrow> ('x io_scheme, unit) comp" and K F I +
  assumes waiting: "I s \<Longrightarrow> idle e \<Longrightarrow> I (s\<lparr>log := log s @ [e]\<rparr>)"
    and null: "Null_Deref \<in> F"
begin

lemma guarded_waiting:
  "guarded K I s \<Longrightarrow> idle e \<Longrightarrow> guarded K I (s\<lparr>log := log s @ [e]\<rparr>)"
  using waiting by (simp add: guarded_def)

lemma round_admits:
  assumes "guarded K I s"
  shows "wp (demo_round u handle) (admits K F I) s"
proof -
  let ?s1 = "s\<lparr>log := log s @ [Ev_submit (u_submit u (log s))]\<rparr>"
  obtain r p where w: "u_wait_cqe u (log ?s1) = (r, p)"
    by (cases "u_wait_cqe u (log ?s1)")
  let ?s2 = "?s1\<lparr>log := log ?s1 @ [Ev_wait_cqe r]\<rparr>"
  have g: "guarded K I ?s2"
    by (intro guarded_waiting assms) (simp_all add: idle_def)
  show ?thesis
    using handle_admits [OF g] w null
    by (cases p) (simp_all add: demo_round_def io_uring_wait_cqe_def io_uring_submit_def
        see_cqe_def deref_cqe_def wp_simps)
qed

lemma loop_admits: "guarded K I s \<Longrightarrow> wp (rounds n (demo_round u handle)) (admits K F I) s"
  by (rule wp_rounds_admits) (simp_all add: round_admits)

end

section \<open>The demo with one buffer\<close>

definition rd_op :: "(ptr \<Rightarrow> iovec option) \<Rightarrow> udata \<Rightarrow> sqe_op \<Rightarrow> bool" where
  "rd_op H d op \<longleftrightarrow>
     (if ci_type (info_of d) = READ
      then op = Op_recvmsg (fd_of (info_of d)) (Auto ''add_recvmsg'' ''msg'') 0 \<and>
        H (Auto ''add_recvmsg'' ''msg'') = Some \<lparr>iov_base = demo_buffer, iov_len = MAX_MESSAGE_LEN\<rparr>
      else (\<forall>fd p fl. op \<noteq> Op_recvmsg fd p fl))"

definition rd_inv :: "event list \<Rightarrow> bool" where
  "rd_inv h \<longleftrightarrow> (\<forall>d op. last_op h d = Some op \<longrightarrow> rd_op (headers h) d op) \<and>
     msg_sends h = msg_receives h \<and> (\<forall>m \<in> set (msg_sends h). iov_base (snd m) = demo_buffer)"

lemma rd_handle_extends: "extends (rd_handle u sockfd c)"
  unfolding rd_handle_def Let_def demo_defs add_defs host_defs by (intro extends_intros)

text \<open>What the events of the handler do to the invariant.\<close>

lemma rd_inv_idle: "rd_inv h \<Longrightarrow> list_all idle es \<Longrightarrow> rd_inv (h @ es)"
  unfolding rd_inv_def using idle_trace by auto

lemma rd_inv_cqe:
  assumes "rd_inv h" and "last_op h (cq_user_data c) = Some op"
    and "ci_type (info_of (cq_user_data c)) \<noteq> READ \<or> cq_res c \<le> 0"
  shows "rd_inv (h @ [Ev_cqe c])"
proof -
  have "rd_op (headers h) (cq_user_data c) op"
    using assms(1,2) by (simp add: rd_inv_def)
  then have "msg_received h (Ev_cqe c) = []"
    using assms(2,3) by (cases op) (auto simp: msg_received_def rd_op_def split: if_splits option.split)
  with assms(1) show ?thesis
    by (simp add: rd_inv_def msg_sent_def header_step_def last_op_step_def)
qed

lemma rd_inv_accept:
  assumes "rd_inv h" and "sq_op q = Op_accept fd a l fl" "ci_type (info_of (sq_user_data q)) = ACCEPT"
  shows "rd_inv (h @ [Ev_sqe q])"
  using assms by (auto simp: rd_inv_def msg_steps rd_op_def op_types)

lemma rd_inv_recvmsg:
  assumes "rd_inv h" and "sq_op q = Op_recvmsg fd (Auto ''add_recvmsg'' ''msg'') 0"
    and "sq_user_data q = Raw (pack (mk_info fd READ 0))" and "is_i32 fd"
  shows "rd_inv (h @ [Ev_auto (Auto ''add_recvmsg'' ''msg'') \<lparr>iov_base = demo_buffer, iov_len = MAX_MESSAGE_LEN\<rparr>,
    Ev_sqe q, Ev_auto_end p])"
  using assms by (auto simp: rd_inv_def msg_steps rd_op_def)

lemma rd_inv_echo:
  fixes c :: cqe and fd :: int
  defines "v \<equiv> \<lparr>iov_base = demo_buffer, iov_len = nat (cq_res c)\<rparr>"
  assumes inv: "rd_inv h" and op: "last_op h (cq_user_data c) = Some op"
    and c: "ci_type (info_of (cq_user_data c)) = READ" "0 < cq_res c" "fd = fd_of (info_of (cq_user_data c))"
    and q: "sq_op q = Op_sendmsg fd (Auto ''add_sendmsg'' ''msg'') 0" "ci_type (info_of (sq_user_data q)) = WRITE"
  shows "rd_inv (h @ [Ev_cqe c, Ev_cqe_seen, Ev_auto (Auto ''add_sendmsg'' ''msg'') v, Ev_sqe q, Ev_auto_end p])"
    (is "rd_inv ?h")
proof -
  have "rd_op (headers h) (cq_user_data c) op"
    using inv op by (simp add: rd_inv_def)
  then have "op = Op_recvmsg fd (Auto ''add_recvmsg'' ''msg'') 0"
    and "headers h (Auto ''add_recvmsg'' ''msg'') = Some \<lparr>iov_base = demo_buffer, iov_len = MAX_MESSAGE_LEN\<rparr>"
    using c by (simp_all add: rd_op_def)
  then have "msg_receives ?h = msg_receives h @ [(fd, v)]"
    using op c(2) by (simp add: msg_received_def v_def)
  moreover have "msg_sends ?h = msg_sends h @ [(fd, v)]"
    using q(1) by (simp add: msg_sent_def header_step_def)
  moreover have "rd_op (headers ?h) d op" if "last_op ?h d = Some op" for d op
    using that inv q by (auto simp: rd_inv_def rd_op_def header_step_def last_op_step_def op_types split: if_splits)
  ultimately show ?thesis
    using inv by (simp add: rd_inv_def v_def)
qed

text \<open>The requests that the handler makes.\<close>

lemma wp_rd_recvmsg:
  assumes "sqe_helpers u" and "rd_inv (log s)" and "is_i32 fd"
  shows "wp (add_recvmsg u fd demo_buffer MAX_MESSAGE_LEN 0) (only UNIV (\<lambda>_ t. rd_inv (log t))) s"
  using rd_inv_recvmsg [OF assms(2) _ _ assms(3)]
  by (simp add: add_recvmsg_def wp_simps sqe_helpersD [OF assms(1)] split: option.split)

lemma wp_rd_accept:
  assumes "sqe_helpers u" and "rd_inv (log s)"
  shows "wp (demo_add_accept u sockfd) (only UNIV (\<lambda>_ t. rd_inv (log t))) s"
  by (simp add: demo_add_accept_def add_accept_def wp_simps sqe_helpersD [OF assms(1)] split: option.split)
    (auto intro!: rd_inv_accept assms(2) simp: sqe_helpersD [OF assms(1)])

lemma wp_rd_hang_up:
  assumes "rd_inv (log s)"
  shows "wp (demo_hang_up sockfd conn_i) (only UNIV (\<lambda>_ t. rd_inv (log t))) s"
proof -
  have "rd_inv (log s @ [Ev_shutdown sockfd, Ev_close (fd_of conn_i)])"
    by (rule rd_inv_idle [OF assms]) (simp add: idle_def)
  then show ?thesis by (simp add: demo_hang_up_def host_defs wp_simps)
qed

lemma wp_rd_echo:
  assumes "sqe_helpers u" and "rd_inv (log s)" and "last_op (log s) (cq_user_data c) = Some op"
    and "ci_type (info_of (cq_user_data c)) = READ" "0 < cq_res c"
  shows "wp (add_sendmsg u (fd_of (info_of (cq_user_data c))) demo_buffer (nat (cq_res c)) 0)
    (only UNIV (\<lambda>_ t. rd_inv (log t))) (s\<lparr>log := log s @ [Ev_cqe c, Ev_cqe_seen]\<rparr>)"
  using rd_inv_echo [OF assms(2-5) refl]
  by (simp add: add_sendmsg_def wp_simps sqe_helpersD [OF assms(1)] split: option.split)

lemma rd_handle_step:
  assumes u: "sqe_helpers u" and inv: "rd_inv (log s)" and c: "msg_kernel (log s) c"
  shows "wp (rd_handle u sockfd c) (only UNIV (\<lambda>_ t. rd_inv (log t))) (s\<lparr>log := log s @ [Ev_cqe c]\<rparr>)"
proof -
  let ?d = "info_of (cq_user_data c)" and ?Q = "only UNIV (\<lambda>(_::unit) t. rd_inv (log t))"
  let ?s = "s\<lparr>log := log s @ [Ev_cqe c, Ev_cqe_seen]\<rparr>"
  obtain op where op: "last_op (log s) (cq_user_data c) = Some op"
    using answered_op c by (auto simp: msg_kernel_def)
  show ?thesis
  proof (cases "ci_type ?d = READ \<and> 0 < cq_res c")
    case True
    then show ?thesis
      using wp_rd_echo [OF u inv op]
      by (simp add: rd_handle_def Let_def op_types io_uring_cqe_seen_def wp_simps)
  next
    case False
    then have "rd_inv ((log s @ [Ev_cqe c]) @ [Ev_cqe_seen])"
      by (intro rd_inv_idle rd_inv_cqe [OF inv op]) (simp_all add: not_less disj_not1 idle_def)
    then have seen: "rd_inv (log ?s)"
      by simp
    have accepted: "wp (andthen (demo_add_accept u sockfd) (add_recvmsg u (cq_res c) demo_buffer MAX_MESSAGE_LEN 0)) ?Q ?s"
      by (rule wp_andthen_only [OF wp_rd_accept [OF u seen]], rule wp_rd_recvmsg [OF u])
        (use c in \<open>simp_all add: msg_kernel_def\<close>)
    from False show ?thesis
      using seen accepted wp_rd_hang_up [OF seen] wp_rd_recvmsg [OF u seen fd_of_range]
      by (auto simp: rd_handle_def Let_def io_uring_cqe_seen_def wp_bnd wp_emit wp_ret wp_andthen [of "emit _"]
          op_types)
  qed
qed

interpretation rd: one_at_a_time "rd_handle u sockfd :: cqe \<Rightarrow> (io, unit) comp" msg_kernel UNIV
    "\<lambda>s. sqe_helpers u \<and> rd_inv (log s)" for u sockfd
proof unfold_locales
  fix s :: io and c :: cqe
  assume "sqe_helpers u \<and> rd_inv (log s)" and "msg_kernel (log s) c"
  then show "wp (rd_handle u sockfd c) (only UNIV (\<lambda>_ s. sqe_helpers u \<and> rd_inv (log s)))
      (s\<lparr>log := log s @ [Ev_cqe c]\<rparr>)"
    using rd_handle_step [of u s c sockfd] by simp
qed (simp_all add: rd_handle_extends rd_inv_idle)

lemma rd_main_inv:
  fixes s :: io
  assumes "sqe_helpers u" and "log s = []" and "rd_main k u argv n s = (Ok (), t)" and "cqes_ok msg_kernel (log t)"
  shows "rd_inv (log t)"
proof -
  let ?I = "\<lambda>t. sqe_helpers u \<and> rd_inv (log t)"
  have start: "rd_inv (log s)"
    using assms(2) by (simp add: rd_inv_def)
  have loop: "wp (andthen (demo_add_accept u sockfd) (rounds n (rd_round u sockfd)))
      (only UNIV (\<lambda>_. guarded msg_kernel ?I)) t" if "rd_inv (log t)" for sockfd and t :: io
    using rd.loop_admits [of u _ n u sockfd] assms(1)
    by (intro wp_andthen_only [OF wp_rd_accept [OF assms(1) that]])
      (simp add: guarded_def rd_round_def admits_UNIV on_ok_only)
  have "wp (rd_main k u argv n) (only UNIV (\<lambda>_. guarded msg_kernel ?I)) s"
    unfolding rd_main_def
    by (auto simp: wp_if wp_exit intro!: wp_andthen_only [OF wp_demo_start(1)] wp_bnd_only [OF wp_demo_start(2)] loop)
      (use start in \<open>auto intro!: rd_inv_idle\<close>)
  then show ?thesis
    using assms(3,4) by (auto simp: guarded_def dest: wpD)
qed


text \<open>An environment that hands out the completions of a script one by one.\<close>

definition ex_taken :: "event list \<Rightarrow> nat" where
  "ex_taken h = length (filter (\<lambda>e. case e of Ev_wait_cqe _ \<Rightarrow> True | _ \<Rightarrow> False) h)"

definition ex_waiting :: "cqe list \<Rightarrow> uring" where
  "ex_waiting script = (ex_uring [])\<lparr>u_wait_cqe := \<lambda>h. (0, Some (script ! ex_taken h))\<rparr>"

lemma ex_waiting_sel [simp]:
  "sqe_helpers (ex_waiting sc)" "u_wait_cqe (ex_waiting sc) h = (0, Some (sc ! ex_taken h))"
  "u_queue_init_params (ex_waiting sc) h = (0, 32)" "u_probe (ex_waiting sc) h = Some True"
  "u_get_sqe (ex_waiting sc) h = Some ex_slot" "u_submit (ex_waiting sc) h = 1"
  "u_prep (ex_waiting sc) op q = q\<lparr>sq_op := op, sq_flags := 0\<rparr>"
  "u_set_flags (ex_waiting sc) q f = q\<lparr>sq_flags := ucast f\<rparr>" "u_reread (ex_waiting sc) h c = c"
  by (simp_all add: ex_waiting_def sqe_helpers_def ex_uring_def)

definition ex_msgs :: "cqe list" where
  "ex_msgs = [\<lparr>cq_user_data = Raw (pack (mk_info 3 ACCEPT 0)), cq_res = 5, cq_flags = 0\<rparr>,
     \<lparr>cq_user_data = Raw (pack (mk_info 5 READ 0)), cq_res = 7, cq_flags = 0\<rparr>,
     \<lparr>cq_user_data = Raw (pack (mk_info 5 WRITE 0)), cq_res = 7, cq_flags = 0\<rparr>]"

definition ex_rd :: "unit outcome \<times> io" where
  "ex_rd = rd_main ex_sock (ex_waiting ex_msgs) [''demo'', ''8080''] 3 ex_io"

lemmas ex_demo_defs = demo_defs create_server_socket_def host_defs cqe_defs add_defs ex_taken_def

lemma ex_rd_run: "fst ex_rd = Ok ()"
  by (simp add: ex_rd_def rd_main_def rd_round_def rd_handle_def ex_demo_defs ex_msgs_def comp_simps op_types Let_def
      mk_info_eq_iff is_i32_def)

lemma ex_rd_trace: "msg_sends (log (snd ex_rd)) = [(5, \<lparr>iov_base = demo_buffer, iov_len = 7\<rparr>)]"
  by (simp add: ex_rd_def rd_main_def rd_round_def rd_handle_def ex_demo_defs ex_msgs_def comp_simps op_types Let_def
      mk_info_eq_iff is_i32_def msg_steps msg_sends_def headers_def)

lemma ex_rd_kernel: "cqes_ok msg_kernel (log (snd ex_rd))"
  by (simp add: ex_rd_def rd_main_def rd_round_def rd_handle_def ex_demo_defs ex_msgs_def comp_simps op_types Let_def
      mk_info_eq_iff is_i32_def cqes_ok_def msg_kernel_def answers_def inflight_def)


section \<open>The demo with a pool of buffers and messages\<close>

definition pd_sent :: "cqe \<Rightarrow> bool" where
  "pd_sent c \<longleftrightarrow> ci_type (info_of (cq_user_data c)) = WRITE \<and> 0 < cq_res c"

lemma pd_handle_seen:
  "wp (pd_handle u sockfd c) (only UNIV (\<lambda>_ t. seen (log t) = seen (log s) \<and> \<not> pd_sent c)) s"
  by (simp add: pd_handle_def Let_def demo_defs add_defs host_defs wp_simps pd_sent_def op_types split: option.split)

lemma pd_round_seen:
  fixes s :: io
  shows "wp (pd_round u sockfd) (only UNIV (\<lambda>_ t. \<exists>c. seen (log t) = seen (log s) @ [c] \<and> \<not> pd_sent c)) s"
proof -
  have "wp (pd_handle u sockfd c) (only UNIV (\<lambda>_ t'. \<exists>c. seen (log t') = seen (log s) @ [c] \<and> \<not> pd_sent c)) t"
    if "seen (log t) = seen (log s) @ [c]" for c and t :: io
    by (rule wp_mono [OF pd_handle_seen [of u sockfd c t]]) (use that in \<open>auto elim!: only_mono\<close>)
  then show ?thesis
    by (auto simp: pd_round_def demo_round_def io_uring_wait_cqe_def io_uring_submit_def see_cqe_def
        deref_cqe_def wp_simps split: option.split prod.split)
qed


definition ex_pd :: "unit outcome \<times> io" where
  "ex_pd = rounds 2 (pd_round (ex_waiting ex_msgs) 3) ex_io"

lemma ex_pd_run: "ex_pd = (Ok (), snd ex_pd)"
  by (simp add: ex_pd_def pd_round_def pd_handle_def ex_demo_defs ex_msgs_def comp_simps op_types Let_def
      mk_info_eq_iff is_i32_def)


section \<open>The demo with a pool of buffers and without messages\<close>



section \<open>The demo with epoll and a ring\<close>

text \<open>One request, from the header to the completion.\<close>

lemma wp_eu_request:
  assumes "sqe_helpers u" and "\<And>h c. u_reread u h c = c"
  shows "wp (eu_request u op msg iov) (only UNIV (\<lambda>r t. \<exists>q c i j. sq_op q = op \<and> r = cq_res c \<and>
    log t = log s @ [Ev_auto msg iov, Ev_sqe q, Ev_submit i, Ev_wait_cqe j, Ev_cqe c, Ev_cqe_seen])) s"
  by (auto simp: eu_request_def io_uring_wait_cqe_def io_uring_submit_def io_uring_cqe_seen_def see_cqe_def
      deref_cqe_def wp_simps assms(2) sqe_helpersD [OF assms(1)] split: option.split prod.split)

definition eu_inv :: "event list \<Rightarrow> bool" where
  "eu_inv h \<longleftrightarrow> (cqes_ok answers h \<longrightarrow> inflight h = {#} \<and> msg_sends h = msg_receives h)"

text \<open>Where nothing else is in flight, the completion is the one of the request.\<close>

lemma eu_answered:
  assumes "cqes_ok answers (h @ [Ev_auto msg iov, Ev_sqe q, Ev_submit i, Ev_wait_cqe j, Ev_cqe c, Ev_cqe_seen])"
    and "inflight h = {#}"
  shows "cqes_ok answers h" and "cq_user_data c = sq_user_data q"
    and "inflight (h @ [Ev_auto msg iov, Ev_sqe q, Ev_submit i, Ev_wait_cqe j, Ev_cqe c, Ev_cqe_seen]) = {#}"
proof -
  let ?g = "[Ev_auto msg iov, Ev_sqe q, Ev_submit i, Ev_wait_cqe j]"
  have ok: "cqes_ok answers (h @ ?g)" "answers (h @ ?g) c"
    using assms(1) by (simp_all add: cqes_ok_append)
  then show "cqes_ok answers h"
    by (simp add: cqes_ok_append)
  have "inflight (h @ ?g) = {#sq_user_data q#}"
    by (simp add: inflight_append [OF ok(1)] assms(2) inflight_step_def)
  with ok(2) show "cq_user_data c = sq_user_data q"
    by (simp add: answers_def)
  then show "inflight (h @ [Ev_auto msg iov, Ev_sqe q, Ev_submit i, Ev_wait_cqe j, Ev_cqe c, Ev_cqe_seen]) = {#}"
    by (simp add: inflight_append [OF assms(1)] assms(2) inflight_step_def)
qed

lemma eu_inv_idle:
  assumes "eu_inv h" and "list_all idle es"
  shows "eu_inv (h @ es)"
  unfolding eu_inv_def
proof
  assume ok: "cqes_ok answers (h @ es)"
  have "foldl inflight_step M es = M" for M
    using assms(2)
  proof (induction es arbitrary: M)
    case (Cons e es)
    then show ?case by (cases e) (simp_all add: idle_def inflight_step_def)
  qed simp
  with ok assms show "inflight (h @ es) = {#} \<and> msg_sends (h @ es) = msg_receives (h @ es)"
    using idle_trace [OF assms(2)] by (auto simp: eu_inv_def cqes_ok_append inflight_append)
qed

lemma eu_inv_received:
  assumes "eu_inv h" and "sq_op q = Op_recvmsg fd msg fl" and "cq_res c \<le> 0"
  shows "eu_inv (h @ [Ev_auto msg iov, Ev_sqe q, Ev_submit i, Ev_wait_cqe j, Ev_cqe c, Ev_cqe_seen])"
  unfolding eu_inv_def
proof
  let ?h = "h @ [Ev_auto msg iov, Ev_sqe q, Ev_submit i, Ev_wait_cqe j, Ev_cqe c, Ev_cqe_seen]"
  assume ok: "cqes_ok answers ?h"
  then have "inflight h = {#} \<and> msg_sends h = msg_receives h"
    using assms(1) by (simp add: eu_inv_def cqes_ok_append)
  with eu_answered [OF ok] assms(2,3) show "inflight ?h = {#} \<and> msg_sends ?h = msg_receives ?h"
    by (simp add: msg_steps)
qed

lemma eu_inv_echoed:
  fixes h :: "event list" and msg b :: ptr and m :: nat and q :: sqe and c :: cqe and i j :: int
  defines "g \<equiv> h @ [Ev_auto msg \<lparr>iov_base = b, iov_len = m\<rparr>, Ev_sqe q, Ev_submit i, Ev_wait_cqe j, Ev_cqe c, Ev_cqe_seen]"
  assumes "eu_inv h" and "sq_op q = Op_recvmsg fd msg fl" "0 < cq_res c" and "sq_op q' = Op_sendmsg fd msg' fl'"
  shows "eu_inv (g @ [Ev_auto msg' \<lparr>iov_base = b, iov_len = nat (cq_res c)\<rparr>,
    Ev_sqe q', Ev_submit i', Ev_wait_cqe j', Ev_cqe c', Ev_cqe_seen])"
  unfolding eu_inv_def
proof
  let ?es = "[Ev_auto msg' \<lparr>iov_base = b, iov_len = nat (cq_res c)\<rparr>,
    Ev_sqe q', Ev_submit i', Ev_wait_cqe j', Ev_cqe c', Ev_cqe_seen]"
  assume ok: "cqes_ok answers (g @ ?es)"
  then have okg: "cqes_ok answers g"
    by (simp add: cqes_ok_append)
  then have h: "inflight h = {#}" "msg_sends h = msg_receives h"
    using assms(2) by (simp_all add: eu_inv_def g_def cqes_ok_append)
  note a = eu_answered [OF okg [unfolded g_def] h(1), folded g_def]
  note b = eu_answered [OF ok a(3)]
  have "msg_receives (g @ ?es) = msg_receives h @ [(fd, \<lparr>iov_base = b, iov_len = nat (cq_res c)\<rparr>)]"
    using a(2) b(2) assms(3-5) by (simp add: g_def msg_steps)
  moreover have "msg_sends (g @ ?es) = msg_sends h @ [(fd, \<lparr>iov_base = b, iov_len = nat (cq_res c)\<rparr>)]"
    using assms(3,5) by (simp add: g_def msg_steps)
  ultimately show "inflight (g @ ?es) = {#} \<and> msg_sends (g @ ?es) = msg_receives (g @ ?es)"
    using b(3) h(2) by simp
qed

lemma wp_eu_close:
  assumes "eu_inv (log s)"
  shows "wp (close_c fd) (only UNIV (\<lambda>_ t. eu_inv (log t))) s"
  using eu_inv_idle [OF assms] by (simp add: close_c_def wp_simps idle_def)

lemma wp_eu_serve:
  fixes s :: io
  assumes u: "sqe_helpers u" and r: "\<And>h c. u_reread u h c = c" and inv: "eu_inv (log s)"
  shows "wp (eu_serve k u epollfd fd) (only UNIV (\<lambda>_ t. eu_inv (log t))) s"
  unfolding eu_serve_def
proof (rule wp_bnd_only [OF wp_eu_request [OF u r]])
  let ?Q = "only UNIV (\<lambda>(_::unit) (t::io). eu_inv (log t))"
  fix n and t :: io
  assume "\<exists>q c i j. sq_op q = Op_recvmsg fd (Auto ''main'' ''msg'') 0 \<and> n = cq_res c \<and>
    log t = log s @ [Ev_auto (Auto ''main'' ''msg'') \<lparr>iov_base = demo_buffer, iov_len = MAX_MESSAGE_LEN - 1\<rparr>,
      Ev_sqe q, Ev_submit i, Ev_wait_cqe j, Ev_cqe c, Ev_cqe_seen]"
  then obtain q c i j where q: "sq_op q = Op_recvmsg fd (Auto ''main'' ''msg'') 0" and n: "n = cq_res c"
    and t: "log t = log s @ [Ev_auto (Auto ''main'' ''msg'') \<lparr>iov_base = demo_buffer, iov_len = MAX_MESSAGE_LEN - 1\<rparr>,
      Ev_sqe q, Ev_submit i, Ev_wait_cqe j, Ev_cqe c, Ev_cqe_seen]"
    by blast
  show "wp (if n \<le> 0 then andthen (epoll_ctl_c k epollfd EPOLL_CTL_DEL fd 0) (shutdown_c fd)
      else bnd (eu_request u (Op_sendmsg fd (Auto ''main'' ''s_msg'') 0) (Auto ''main'' ''s_msg'')
        \<lparr>iov_base = demo_buffer, iov_len = nat n\<rparr>) (\<lambda>bytes_sent. if bytes_sent < 0 then close_c fd else ret ())) ?Q t"
  proof (cases "n \<le> 0")
    case True
    then have "eu_inv (log t)"
      using eu_inv_received [OF inv q] t n by simp
    from eu_inv_idle [OF this] True show ?thesis
      by (simp add: epoll_ctl_c_def shutdown_c_def wp_simps idle_def)
  next
    case False
    have "wp (bnd (eu_request u (Op_sendmsg fd (Auto ''main'' ''s_msg'') 0) (Auto ''main'' ''s_msg'')
        \<lparr>iov_base = demo_buffer, iov_len = nat n\<rparr>) (\<lambda>bytes_sent. if bytes_sent < 0 then close_c fd else ret ())) ?Q t"
    proof (rule wp_bnd_only [OF wp_eu_request [OF u r]], elim exE conjE)
      fix m and t' :: io and q' c' i' j'
      assume q': "sq_op q' = Op_sendmsg fd (Auto ''main'' ''s_msg'') 0"
        and t': "log t' = log t @ [Ev_auto (Auto ''main'' ''s_msg'') \<lparr>iov_base = demo_buffer, iov_len = nat n\<rparr>,
          Ev_sqe q', Ev_submit i', Ev_wait_cqe j', Ev_cqe c', Ev_cqe_seen]"
      have "eu_inv (log t')"
        unfolding t' t n by (rule eu_inv_echoed [OF inv q _ q']) (use False n in simp)
      then show "wp (if m < 0 then close_c fd else ret ()) ?Q t'"
        by (simp add: wp_eu_close wp_ret)
    qed
    with False show ?thesis by simp
  qed
qed

lemma eu_handle_step:
  fixes s :: io
  assumes "sqe_helpers u" and "\<And>h c. u_reread u h c = c" and inv: "eu_inv (log s)"
  shows "wp (eu_handle k u sockfd epollfd ev) (only UNIV (\<lambda>_ t. eu_inv (log t))) s"
  using wp_eu_serve [OF assms, of k epollfd "ep_fd ev"] wp_eu_close [OF inv] eu_inv_idle [OF inv]
  by (simp add: eu_handle_def wp_if wp_bnd accept_c_def epoll_ctl_c_def wp_ask wp_ret wp_exit idle_def)

lemma eu_main_inv:
  fixes s :: io
  assumes u: "sqe_helpers u" and r: "\<And>h c. u_reread u h c = c" and s: "log s = []"
  shows "wp (eu_main k u argv n) (only UNIV (\<lambda>_ t. eu_inv (log t))) s"
proof -
  let ?I = "\<lambda>_ (t::io). eu_inv (log t)"
  have start: "eu_inv (log s)"
    using s by (simp add: eu_inv_def)
  have event: "wp (bnd (read_arr es i) (eu_handle k u sockfd epollfd)) (only UNIV ?I) t"
    if "eu_inv (log t)" for es and i :: int and t sockfd epollfd
    using that eu_handle_step [OF u r] by (simp add: wp_bnd wp_read_arr)
  have round: "wp (eu_round k u sockfd epollfd) (only UNIV ?I) t" if "eu_inv (log t)" for t sockfd epollfd
    unfolding eu_round_def epoll_round_def epoll_wait_c_def
    using eu_inv_idle [OF that]
    by (auto simp: wp_bnd [of "ask _ _"] wp_ask wp_exit idle_def split: prod.split
        intro!: wp_for_list_only event)
  have watch: "wp (eu_watch k sockfd) (only UNIV ?I) t" if "eu_inv (log t)" for t sockfd
    using eu_inv_idle [OF that] by (simp add: eu_watch_def host_defs wp_simps idle_def)
  show ?thesis
    unfolding eu_main_def
    by (auto simp: wp_if wp_exit intro!: wp_andthen_only [OF wp_demo_start(1)] wp_bnd_only [OF wp_demo_start(2)]
        wp_bnd_only [OF watch] wp_rounds_only round)
      (use start in \<open>auto intro!: eu_inv_idle\<close>)
qed


definition ex_eu_sock :: sock where
  "ex_eu_sock = ex_sock\<lparr>k_epoll_wait := \<lambda>h. (1, [\<lparr>ep_events = 1, ep_fd = 5\<rparr>])\<rparr>"

definition ex_eu_msgs :: "cqe list" where
  "ex_eu_msgs = replicate 2 \<lparr>cq_user_data = Raw 0, cq_res = 7, cq_flags = 0\<rparr>"

definition ex_eu :: "unit outcome \<times> io" where
  "ex_eu = eu_main ex_eu_sock (ex_waiting ex_eu_msgs) [''demo'', ''8080''] 1 ex_io"

lemmas ex_eu_defs = ex_eu_def eu_main_def eu_round_def eu_handle_def eu_serve_def eu_request_def eu_watch_def
  epoll_round_def ex_eu_sock_def ex_eu_msgs_def ex_slot_def read_arr_def in_bounds_def

lemma ex_eu_run: "fst ex_eu = Ok ()"
  by (simp add: ex_eu_defs ex_demo_defs comp_simps)

lemma ex_eu_trace: "msg_sends (log (snd ex_eu)) = [(5, \<lparr>iov_base = demo_buffer, iov_len = 7\<rparr>)]"
  by (simp add: ex_eu_defs ex_demo_defs comp_simps msg_steps msg_sends_def headers_def)

lemma ex_eu_kernel: "cqes_ok answers (log (snd ex_eu))"
  by (simp add: ex_eu_defs ex_demo_defs comp_simps cqes_ok_def answers_def inflight_def)


end
