(* ===== verification/Small_Demos.thy ===== *)
theory Small_Demos
  imports Example_Env
begin

text \<open>
  Three small programs: \<^verbatim>\<open>demo/bench.c\<close>, which counts poll requests for ten seconds,
  \<^verbatim>\<open>demo/eventfd.c\<close>, where a child adds numbers to an event counter that its parent reads,
  and \<^verbatim>\<open>demo/helloworld.c\<close>, one write through a ring.
\<close>

section \<open>The benchmark\<close>

record bench = io +
  nr_reqs :: u64
  bench_buf :: "byte list"

definition bench_init :: bench where
  "bench_init = \<lparr>log = [], nr_reqs = 0, bench_buf = replicate 4096 0\<rparr>"

definition runtime_ms :: u64 where "runtime_ms = 10000"

definition bench_qd :: int where "bench_qd = 32"

definition is_i64 :: "int \<Rightarrow> bool" where
  "is_i64 i \<longleftrightarrow> - (2 ^ 63) \<le> i \<and> i < 2 ^ 63"

text \<open>The arithmetic is on \<^verbatim>\<open>long\<close>; its overflow is undefined.\<close>

definition gettimeofday_ms :: "posix \<Rightarrow> ('x io_scheme, u64) comp" where
  "gettimeofday_ms x = bnd (gettimeofday_c x) (\<lambda>(sec, usec).
     let a = sec * 1000; b = a + signed_divide usec 1000 in
     if is_i64 a \<and> is_i64 b then ret (word_of_int b) else fail Int_Overflow)"

definition bench_add_poll :: "uring \<Rightarrow> (bench, unit) comp" where
  "bench_add_poll u = queue_sqe u (\<lambda>q. let p = u_prep u (Op_poll_add 0 POLLIN) q in
     p\<lparr>sq_flags := sq_flags p OR IOSQE_FIXED_FILE, sq_user_data := Raw 1\<rparr>)"

text \<open>The loop over the completions, left by \<^verbatim>\<open>break\<close> where waiting fails.\<close>

primrec bench_reap :: "uring \<Rightarrow> nat \<Rightarrow> (bench, unit) comp" where
  "bench_reap u 0 = ret ()"
| "bench_reap u (Suc n) = bnd (io_uring_wait_cqe u) (\<lambda>(r, p).
     if r < 0 then ret ()
     else bnd (deref_cqe p) (\<lambda>cqe.
       andthen io_uring_cqe_seen
      (andthen (modify (\<lambda>s. s\<lparr>nr_reqs := nr_reqs s + 1\<rparr>)) (bench_reap u n))))"

text \<open>\<^verbatim>\<open>write (fd, buf, 1)\<close> and \<^verbatim>\<open>read (fd, buf, 1)\<close>, with the static array \<^verbatim>\<open>buf\<close>.\<close>

definition bench_write :: "posix \<Rightarrow> int \<Rightarrow> (bench, int) comp" where
  "bench_write x fd = bnd get_state (\<lambda>s. write_c x fd (take 1 (bench_buf s)))"

definition bench_read :: "posix \<Rightarrow> int \<Rightarrow> (bench, int) comp" where
  "bench_read x fd = bnd (read_c x fd 1) (\<lambda>(d, n). bnd get_state (\<lambda>s.
     if length d \<le> length (bench_buf s)
     then andthen (modify (\<lambda>s. s\<lparr>bench_buf := d @ drop (length d) (bench_buf s)\<rparr>)) (ret n)
     else fail Out_Of_Bounds))"

text \<open>One round of the \<^verbatim>\<open>do\<close> loop; false where it ends in \<^verbatim>\<open>return 1\<close>.\<close>

definition bench_body :: "posix \<Rightarrow> uring \<Rightarrow> int \<Rightarrow> int \<Rightarrow> (bench, bool) comp" where
  "bench_body x u pipe0 pipe1 =
     andthen (for_list (\<lambda>_. bench_add_poll u) [0..bench_qd - 1])
    (bnd (io_uring_submit u) (\<lambda>r.
       if r \<noteq> bench_qd then ret False
       else bnd (bench_write x pipe1) (\<lambda>r.
         if r \<noteq> 1 then ret False
         else bnd (bench_read x pipe0) (\<lambda>r.
           if r \<noteq> 1 then ret False
           else andthen (bench_reap u (nat bench_qd)) (ret True)))))"

text \<open>
  The first \<open>n\<close> rounds of the loop: \<^const>\<open>None\<close> where it has not ended by then, and
  otherwise what \<^verbatim>\<open>bench_do\<close> returns.
\<close>

primrec bench_loop :: "posix \<Rightarrow> uring \<Rightarrow> int \<Rightarrow> int \<Rightarrow> u64 \<Rightarrow> nat \<Rightarrow> (bench, int option) comp" where
  "bench_loop x u pipe0 pipe1 tstop 0 = ret None"
| "bench_loop x u pipe0 pipe1 tstop (Suc n) =
     bnd (bench_body x u pipe0 pipe1) (\<lambda>ok.
       if \<not> ok then ret (Some 1)
       else bnd (gettimeofday_ms x) (\<lambda>now.
         if now < tstop then bench_loop x u pipe0 pipe1 tstop n else ret (Some 0)))"

definition bench_do :: "posix \<Rightarrow> uring \<Rightarrow> nat \<Rightarrow> (bench, int option) comp" where
  "bench_do x u n =
     bnd (pipe_c x) (\<lambda>(r, pipe0, pipe1).
       if r \<noteq> 0 then ret (Some 1)
       else bnd (register_files_c u [pipe0, pipe1]) (\<lambda>r.
         if r < 0 then ret (Some 1)
         else bnd (gettimeofday_ms x) (\<lambda>now.
           bench_loop x u pipe0 pipe1 (now + runtime_ms) n)))"

text \<open>\<^verbatim>\<open>main\<close>, which returns to the caller of the model only where the loop has not ended.\<close>

definition bench_main :: "posix \<Rightarrow> uring \<Rightarrow> nat \<Rightarrow> (bench, unit) comp" where
  "bench_main x u n =
     bnd (queue_init_c u 1024 IORING_SETUP_SINGLE_ISSUER) (\<lambda>r.
       bnd (if r = - EINVAL then queue_init_c u 1024 0 else ret r) (\<lambda>r.
         if r \<noteq> 0 then exit_with 1
         else bnd (ask (u_reg_ring_fd u) Ev_register_ring_fd) (\<lambda>r.
           if r < 0 then exit_with 1
           else bnd (bench_do x u n) (\<lambda>r. case r of
               None \<Rightarrow> ret ()
             | Some r \<Rightarrow> if r = 1 then exit_with 1 else exit_with 0))))"

section \<open>The event counter\<close>

text \<open>The object representation of a \<^verbatim>\<open>uint64_t\<close>.\<close>

definition u64_bytes :: "u64 \<Rightarrow> byte list" where
  "u64_bytes w = map (\<lambda>i. ucast (drop_bit (8 * i) w)) [0..<8]"

definition ef_write :: "posix \<Rightarrow> int \<Rightarrow> string \<Rightarrow> ('x io_scheme, unit) comp" where
  "ef_write x efd arg = bnd (write_c x efd (u64_bytes (strtoull0 arg))) (\<lambda>s.
     if s \<noteq> 8 then exit_with 1 else ret ())"

definition ef_child :: "posix \<Rightarrow> int \<Rightarrow> string list \<Rightarrow> ('x io_scheme, unit) comp" where
  "ef_child x efd argv = andthen (for_list (ef_write x efd) (tl argv)) (exit_with 0)"

definition ef_parent :: "posix \<Rightarrow> int \<Rightarrow> ('x io_scheme, unit) comp" where
  "ef_parent x efd = bnd (read_c x efd 8) (\<lambda>(_, s). if s \<noteq> 8 then exit_with 1 else exit_with 0)"

definition ef_main :: "posix \<Rightarrow> string list \<Rightarrow> ('x io_scheme, unit) comp" where
  "ef_main x argv =
     (if length argv < 2 then exit_with 1
      else bnd (eventfd_c x) (\<lambda>efd.
        if efd = -1 then exit_with 1
        else bnd (fork_c x) (\<lambda>pid.
          if pid = 0 then ef_child x efd argv
          else if pid = -1 then exit_with 1
          else ef_parent x efd)))"

section \<open>One write\<close>

definition hw_main :: "uring \<Rightarrow> ('x io_scheme, unit) comp" where
  "hw_main u =
     bnd (queue_init_params u 4 0) (\<lambda>(r, _).
       if r \<noteq> 0 then abort_c
       else andthen (queue_sqe u (u_prep u (Op_write 1 (Auto ''main'' ''hello'') 13 0)))
        (andthen (io_uring_submit u)
          (bnd (io_uring_wait_cqe u) (\<lambda>(r, p).
            if r \<noteq> 0 then abort_c
            else bnd (deref_cqe p) (\<lambda>cqe.
              if \<not> 0 < cq_res cqe then abort_c
              else andthen io_uring_cqe_seen (andthen (emit Ev_queue_exit) (exit_with 0)))))))"

section \<open>The benchmark ends\<close>

definition clock_ms :: "int \<times> int \<Rightarrow> int" where
  "clock_ms t = fst t * 1000 + snd t div 1000"

fun is_time :: "event \<Rightarrow> bool" where
  "is_time (Ev_time _ _) = True"
| "is_time _ = False"

fun is_seen :: "event \<Rightarrow> bool" where
  "is_seen Ev_cqe_seen = True"
| "is_seen _ = False"

definition readings :: "event list \<Rightarrow> nat" where
  "readings h = length (filter is_time h)"

definition seen_marks :: "event list \<Rightarrow> nat" where
  "seen_marks h = length (filter is_seen h)"

text \<open>
  A clock with seconds and microseconds in their ranges, whose first reading is at most
  \<open>T\<close> milliseconds and that has gone on by ten seconds after \<open>B\<close> readings.
\<close>

definition clock_passes :: "posix \<Rightarrow> int \<Rightarrow> nat \<Rightarrow> bool" where
  "clock_passes x T B \<longleftrightarrow> T < 2 ^ 60 \<and>
     (\<forall>h. 0 \<le> fst (x_time x h) \<and> fst (x_time x h) < 2 ^ 50 \<and> 0 \<le> snd (x_time x h) \<and> snd (x_time x h) < 1000000) \<and>
     (\<forall>h. readings h = 0 \<longrightarrow> clock_ms (x_time x h) \<le> T) \<and>
     (\<forall>h. B \<le> readings h \<longrightarrow> T + 10000 \<le> clock_ms (x_time x h))"

definition wait_fills :: "uring \<Rightarrow> bool" where
  "wait_fills u \<longleftrightarrow> (\<forall>h. 0 \<le> fst (u_wait_cqe u h) \<longrightarrow> snd (u_wait_cqe u h) \<noteq> None)"

lemma wait_fillsD:
  assumes "wait_fills u" and "u_wait_cqe u h = (r, p)" and "0 \<le> r"
  shows "\<exists>c. p = Some c"
  using assms unfolding wait_fills_def by (metis fst_conv snd_conv not_None_eq)

definition read_bounded :: "posix \<Rightarrow> bool" where
  "read_bounded x \<longleftrightarrow> (\<forall>h fd n. length (fst (x_read x h fd n)) \<le> n)"

definition bench_ok :: "bench \<Rightarrow> bool" where
  "bench_ok s \<longleftrightarrow> nr_reqs s = of_nat (seen_marks (log s)) \<and> length (bench_buf s) = 4096"

text \<open>What every step keeps: the count, and the number of times that the clock was read.\<close>

definition bench_keeps :: "bench \<Rightarrow> 'a outcome \<Rightarrow> bench \<Rightarrow> bool" where
  "bench_keeps s r t \<longleftrightarrow> (\<exists>a. r = Ok a) \<and> bench_ok t \<and> pending (log t) = 0 \<and> readings (log t) = readings (log s)"

lemma count_append [simp]:
  "readings (g @ h) = readings g + readings h" "seen_marks (g @ h) = seen_marks g + seen_marks h"
  "readings [] = 0" "seen_marks [] = 0"
  "readings (e # h) = (if is_time e then Suc (readings h) else readings h)"
  "seen_marks (e # h) = (if is_seen e then Suc (seen_marks h) else seen_marks h)"
  by (simp_all add: readings_def seen_marks_def)

lemma bench_ok_log: "\<not> is_seen e \<Longrightarrow> bench_ok (s\<lparr>log := log s @ [e]\<rparr>) = bench_ok s"
  by (simp add: bench_ok_def)

lemma wp_bench_polls:
  assumes "has_room u 32"
  shows "pending (log s) + length xs \<le> 32 \<Longrightarrow> bench_ok s \<Longrightarrow>
    wp (for_list (\<lambda>_. bench_add_poll u) xs)
      (\<lambda>r t. r = Ok () \<and> bench_ok t \<and> readings (log t) = readings (log s)) s"
proof (induction xs arbitrary: s)
  case (Cons y ys)
  obtain q where q: "u_get_sqe u (log s) = Some q"
    using has_room_Some [OF assms, of "log s"] Cons.prems(1) by auto
  let ?p = "u_prep u (Op_poll_add 0 POLLIN) q"
  let ?t = "s\<lparr>log := log s @ [Ev_sqe (?p\<lparr>sq_flags := sq_flags ?p OR IOSQE_FIXED_FILE, sq_user_data := Raw 1\<rparr>)]\<rparr>"
  have "wp (for_list (\<lambda>_. bench_add_poll u) ys)
      (\<lambda>r t. r = Ok () \<and> bench_ok t \<and> readings (log t) = readings (log ?t)) ?t"
    using Cons.prems by (intro Cons.IH) (simp_all add: pending_step_def bench_ok_def)
  then show ?case
    using q by (simp add: wp_bnd bench_add_poll_def wp_queue_sqe Let_def)
qed (simp add: wp_ret)

lemma wp_bench_reap:
  assumes "wait_fills u"
  shows "bench_ok s \<Longrightarrow> pending (log s) = 0 \<Longrightarrow> wp (bench_reap u n) (bench_keeps s) s"
proof (induction n arbitrary: s)
  case (Suc n)
  obtain r p where w: "u_wait_cqe u (log s) = (r, p)"
    by (cases "u_wait_cqe u (log s)")
  show ?case
  proof (cases "r < 0")
    case True
    with w Suc.prems show ?thesis
      by (simp add: io_uring_wait_cqe_def wp_simps bench_keeps_def bench_ok_def pending_step_def split: option.split)
  next
    case False
    then obtain c where p: "p = Some c"
      using wait_fillsD [OF assms w] by auto
    let ?t = "s\<lparr>log := log s @ [Ev_wait_cqe r, Ev_cqe c, Ev_cqe_seen], nr_reqs := nr_reqs s + 1\<rparr>"
    have "wp (bench_reap u n) (bench_keeps ?t) ?t"
      using Suc.prems by (intro Suc.IH) (simp_all add: bench_ok_def pending_step_def)
    then have "wp (bench_reap u n) (bench_keeps s) ?t"
      by (rule wp_mono) (simp add: bench_keeps_def)
    with False w p show ?thesis
      by (simp add: io_uring_wait_cqe_def io_uring_cqe_seen_def see_cqe_def wp_simps deref_cqe_def)
  qed
qed (simp add: wp_ret bench_keeps_def)

lemma wp_bench_transfer:
  assumes "read_bounded x" and "bench_ok s" and "pending (log s) = 0"
  shows "wp (bench_write x fd) (bench_keeps s) s" and "wp (bench_read x fd) (bench_keeps s) s"
proof -
  obtain d n where r: "x_read x (log s) fd 1 = (d, n)"
    by (cases "x_read x (log s) fd 1")
  have "length d \<le> 1"
    using assms(1) r unfolding read_bounded_def by (metis fst_conv)
  then show "wp (bench_read x fd) (bench_keeps s) s"
    using assms(2,3) r by (simp add: bench_read_def read_c_def wp_simps bench_keeps_def bench_ok_def pending_step_def)
  show "wp (bench_write x fd) (bench_keeps s) s"
    using assms(2,3) by (simp add: bench_write_def write_c_def wp_simps bench_keeps_def bench_ok_def pending_step_def)
qed

text \<open>Composition of steps that keep the count.\<close>

lemma wp_bnd_keeps:
  assumes "wp m (bench_keeps s0) s"
    and "\<And>a t. bench_ok t \<Longrightarrow> pending (log t) = 0 \<Longrightarrow> wp (f a) (bench_keeps t) t"
  shows "wp (bnd m f) (bench_keeps s0) s"
proof -
  have "wp (f a) (bench_keeps s0) t" if "bench_keeps s0 (Ok a) t" for a t
    by (rule wp_mono [OF assms(2) [of t a]]) (use that in \<open>auto simp: bench_keeps_def\<close>)
  then have "wp m (after (\<lambda>a. wp (f a) (bench_keeps s0)) (bench_keeps s0)) s"
    using assms(1) by (elim wp_mono) (auto simp: bench_keeps_def after_def)
  then show ?thesis by (simp add: wp_bnd)
qed

lemma wp_bench_body:
  assumes "has_room u 32" "wait_fills u" "read_bounded x" and "bench_ok s" "pending (log s) = 0"
  shows "wp (bench_body x u a b) (bench_keeps s) s"
proof -
  have fin: "wp (ret z) (bench_keeps t) t" if "bench_ok t" "pending (log t) = 0" for z :: bool and t
    using that by (simp add: wp_ret bench_keeps_def)
  have "wp (io_uring_submit u) (bench_keeps s) t"
    if "bench_ok t" "readings (log t) = readings (log s)" for t :: bench
    using that by (simp add: io_uring_submit_def wp_ask bench_keeps_def bench_ok_def pending_step_def)
  then have "wp (andthen (for_list (\<lambda>_. bench_add_poll u) [0..bench_qd - 1]) (io_uring_submit u)) (bench_keeps s) s"
    using assms(4,5) wp_mono [OF wp_bench_polls [OF assms(1), of s "[0..bench_qd - 1]"]]
    by (simp add: wp_andthen bench_qd_def)
  then have "wp (bnd (andthen (for_list (\<lambda>_. bench_add_poll u) [0..bench_qd - 1]) (io_uring_submit u)) (\<lambda>r.
      if r \<noteq> bench_qd then ret False
      else bnd (bench_write x b) (\<lambda>r.
        if r \<noteq> 1 then ret False
        else bnd (bench_read x a) (\<lambda>r.
          if r \<noteq> 1 then ret False
          else andthen (bench_reap u (nat bench_qd)) (ret True))))) (bench_keeps s) s"
    unfolding andthen_def [of "bench_reap u (nat bench_qd)"]
    by (rule wp_bnd_keeps) (auto intro!: wp_bnd_keeps fin wp_bench_transfer [OF assms(3)] wp_bench_reap [OF assms(2)])
  then show ?thesis
    by (simp add: bench_body_def andthen_def bnd_assoc)
qed

lemma wp_clock:
  assumes "clock_passes x T B"
  shows "wp (gettimeofday_ms x) Q s \<longleftrightarrow> Q (Ok (word_of_int (clock_ms (x_time x (log s)))))
    (s\<lparr>log := log s @ [Ev_time (fst (x_time x (log s))) (snd (x_time x (log s)))]\<rparr>)"
proof -
  obtain a b where t: "x_time x (log s) = (a, b)"
    by (cases "x_time x (log s)")
  have "0 \<le> fst (x_time x (log s)) \<and> fst (x_time x (log s)) < 2 ^ 50 \<and>
      0 \<le> snd (x_time x (log s)) \<and> snd (x_time x (log s)) < 1000000"
    using assms unfolding clock_passes_def by blast
  then have r: "0 \<le> a" "a < 2 ^ 50" "0 \<le> b" "b < 1000000"
    by (simp_all add: t)
  then have "signed_divide b 1000 = b div 1000" "0 \<le> b div 1000" "b div 1000 < 1000"
    by (auto simp: signed_divide_int_def sgn_if)
  with r show ?thesis
    by (simp add: gettimeofday_ms_def gettimeofday_c_def wp_simps t Let_def is_i64_def clock_ms_def)
qed

lemma clock_before_deadline:
  assumes "clock_passes x T B" and "readings h = 0"
  shows "uint (word_of_int (clock_ms (x_time x h)) + runtime_ms :: u64) \<le> T + 10000"
proof -
  let ?c = "clock_ms (x_time x h)"
  have "?c \<le> T" "T < 2 ^ 60" "0 \<le> fst (x_time x h)" "0 \<le> snd (x_time x h)"
    using assms by (simp_all add: clock_passes_def)
  moreover from this have "0 \<le> ?c"
    by (simp add: clock_ms_def pos_imp_zdiv_nonneg_iff)
  ultimately have "uint (word_of_int (?c + 10000) :: u64) = ?c + 10000"
    by (subst unsigned_of_int) (simp add: take_bit_int_eq_self)
  moreover have "word_of_int ?c + runtime_ms = (word_of_int (?c + 10000) :: u64)"
    by (simp add: runtime_ms_def)
  ultimately have "uint (word_of_int ?c + runtime_ms :: u64) = ?c + 10000"
    by (simp only:)
  then show ?thesis
    using \<open>?c \<le> T\<close> by simp
qed

lemma clock_after_deadline:
  assumes "clock_passes x T B" and "B \<le> readings h"
  shows "T + 10000 \<le> uint (word_of_int (clock_ms (x_time x h)) :: u64)"
proof -
  let ?c = "clock_ms (x_time x h)"
  have c: "0 \<le> fst (x_time x h)" "fst (x_time x h) < 2 ^ 50" "0 \<le> snd (x_time x h)" "snd (x_time x h) < 1000000"
    using assms by (simp_all add: clock_passes_def)
  then have "snd (x_time x h) div 1000 < 1000" "0 \<le> snd (x_time x h) div 1000"
    by simp_all
  with c have "0 \<le> ?c" "?c < 2 ^ 64"
    by (simp_all add: clock_ms_def)
  moreover have "T + 10000 \<le> ?c"
    using assms by (simp add: clock_passes_def)
  ultimately show ?thesis by (simp add: unsigned_of_int take_bit_int_eq_self)
qed

definition bench_ended :: "int option outcome \<Rightarrow> bench \<Rightarrow> bool" where
  "bench_ended r t \<longleftrightarrow> (r = Ok (Some 0) \<or> r = Ok (Some 1)) \<and> bench_ok t"

lemma wp_bench_loop:
  assumes env: "has_room u 32" "wait_fills u" "read_bounded x" and clock: "clock_passes x T B"
    and stop: "uint tstop \<le> T + 10000"
  shows "bench_ok s \<Longrightarrow> pending (log s) = 0 \<Longrightarrow> 0 < n \<Longrightarrow> B < readings (log s) + n \<Longrightarrow>
    wp (bench_loop x u a b tstop n) bench_ended s"
proof (induction n arbitrary: s)
  case (Suc n)
  have tick: "wp (gettimeofday_ms x) (after (\<lambda>now. wp (if now < tstop then bench_loop x u a b tstop n else ret (Some 0))
      bench_ended) bench_ended) t" if t: "bench_keeps s (Ok True) t" for t
  proof -
    let ?c = "word_of_int (clock_ms (x_time x (log t))) :: u64"
    let ?t = "t\<lparr>log := log t @ [Ev_time (fst (x_time x (log t))) (snd (x_time x (log t)))]\<rparr>"
    have ok: "bench_ok ?t" "pending (log ?t) = 0" "readings (log ?t) = Suc (readings (log s))"
      using t by (simp_all add: bench_keeps_def bench_ok_def pending_step_def)
    have "wp (bench_loop x u a b tstop n) bench_ended ?t" if less: "?c < tstop"
    proof -
      have "\<not> B \<le> readings (log t)"
        using clock_after_deadline [OF clock, of "log t"] stop less by (auto simp: word_less_def)
      then have "readings (log s) < B"
        using t by (simp add: bench_keeps_def)
      with Suc.prems ok show ?thesis by (intro Suc.IH) simp_all
    qed
    with ok show ?thesis
      by (simp add: wp_clock [OF clock] wp_ret bench_ended_def)
  qed
  from wp_bench_body [OF env Suc.prems(1,2), of a b] show ?case
    unfolding bench_loop.simps wp_bnd
  proof (rule wp_mono)
    fix r :: "bool outcome" and t
    assume k: "bench_keeps s r t"
    then obtain ok where r: "r = Ok ok"
      by (auto simp: bench_keeps_def)
    show "after (\<lambda>ok. wp (if \<not> ok then ret (Some 1) else bnd (gettimeofday_ms x) (\<lambda>now.
        if now < tstop then bench_loop x u a b tstop n else ret (Some 0))) bench_ended) bench_ended r t"
      using k r tick by (cases ok) (auto simp: wp_bnd wp_ret bench_ended_def bench_keeps_def)
  qed
qed simp

text \<open>
  C17: The benchmark ends: where the clock goes on, waiting for a completion returns one or
  an error, and the ring has room for the 32 requests of a round, \<^verbatim>\<open>main\<close> leaves with 0 or
  1 after at most as many rounds as the clock takes readings to advance by ten seconds; and
  the number of requests it counted is the number of completions it marked as seen.
\<close>

theorem bench_ends:
  assumes "has_room u 32" "wait_fills u" "read_bounded x" "clock_passes x T B"
  shows "\<exists>c t. bench_main x u (Suc B) bench_init = (Exit c, t) \<and> (c = 0 \<or> c = 1) \<and>
    nr_reqs t = of_nat (seen_marks (log t))"
proof -
  have loop: "wp (bench_do x u (Suc B)) bench_ended s"
    if "bench_ok s" "pending (log s) = 0" "readings (log s) = 0" for s
    using that clock_before_deadline [OF assms(4)]
    by (auto simp: bench_do_def host_defs posix_defs wp_bnd [of "ask _ _"] wp_ask wp_ret bench_ended_def bench_ok_def
        wp_bnd [of "gettimeofday_ms x"] wp_clock [OF assms(4)] pending_step_def simp del: bench_loop.simps
        split: prod.split intro!: wp_bench_loop [OF assms])
  let ?Q = "\<lambda>(r :: unit outcome) t. (r = Exit 0 \<or> r = Exit 1) \<and> bench_ok t"
  have tail: "wp (bnd (bench_do x u (Suc B)) (\<lambda>r. case r of
      None \<Rightarrow> ret () | Some r \<Rightarrow> if r = 1 then exit_with 1 else exit_with 0)) ?Q s"
    if "bench_ok s" "pending (log s) = 0" "readings (log s) = 0" for s
    unfolding wp_bnd by (rule wp_mono [OF loop [OF that]]) (auto simp: bench_ended_def wp_exit)
  have start: "bench_ok bench_init" "log bench_init = []"
    by (simp_all add: bench_init_def bench_ok_def)
  have ring: "wp (if r \<noteq> 0 then exit_with 1
      else bnd (ask (u_reg_ring_fd u) Ev_register_ring_fd) (\<lambda>r. if r < 0 then exit_with 1
        else bnd (bench_do x u (Suc B)) (\<lambda>r. case r of
          None \<Rightarrow> ret () | Some r \<Rightarrow> if r = 1 then exit_with 1 else exit_with 0))) ?Q s"
    if "bench_ok s" "pending (log s) = 0" "readings (log s) = 0" for r :: int and s
    using that by (auto simp: wp_exit wp_bnd [of "ask _ _"] wp_ask bench_ok_log pending_step_def intro!: tail)
  let ?P = "\<lambda>(r :: int outcome) t. (\<exists>a. r = Ok a) \<and> bench_ok t \<and> pending (log t) = 0 \<and> readings (log t) = 0"
  have init: "wp (queue_init_c u n fl) ?P s" "wp (ret r) ?P s"
    if "bench_ok s" "pending (log s) = 0" "readings (log s) = 0" for n fl r s
    using that by (simp_all add: queue_init_c_def wp_ask wp_ret bench_ok_log pending_step_def)
  have step: "wp (bnd m f) ?Q s" if "wp m ?P s"
    "\<And>a t. bench_ok t \<Longrightarrow> pending (log t) = 0 \<Longrightarrow> readings (log t) = 0 \<Longrightarrow> wp (f a) ?Q t" for m f s
    unfolding wp_bnd by (rule wp_mono [OF that(1)]) (use that(2) in auto)
  have "wp (bench_main x u (Suc B)) ?Q bench_init"
    unfolding bench_main_def
    by (intro step ring) (use init in \<open>auto simp: start pending_def [of "[]"]\<close>)
  then show ?thesis
    by (cases "bench_main x u (Suc B) bench_init") (auto simp: wp_def bench_ok_def)
qed

definition ex_posix :: posix where
  "ex_posix = \<lparr>x_pipe = (\<lambda>_. (0, 5, 6)), x_write = (\<lambda>_ _ d. int (length d)),
     x_read = (\<lambda>_ _ n. (replicate n 0, int n)), x_time = (\<lambda>h. (int (min 10 (readings h)), 0)),
     x_eventfd = (\<lambda>_. 4), x_fork = (\<lambda>_. 0)\<rparr>"

lemma ex_posix_ok: "clock_passes ex_posix 0 10" "read_bounded ex_posix" "wait_fills (ex_uring sc)"
  by (simp_all add: clock_passes_def read_bounded_def wait_fills_def ex_posix_def clock_ms_def min_def)

theorem bench_ends_witness:
  "\<exists>c t. bench_main ex_posix (ex_uring []) (Suc 10) bench_init = (Exit c, t) \<and> (c = 0 \<or> c = 1) \<and>
    nr_reqs t = of_nat (seen_marks (log t))"
  by (rule bench_ends [OF ex_uring_room ex_posix_ok(3,2,1)])

section \<open>The event counter and the write\<close>

text \<open>The bytes written are those of the number.\<close>

lemma u64_bytes_inject: "u64_bytes v = u64_bytes w \<Longrightarrow> v = w"
proof (rule bit_word_eqI)
  fix n
  assume eq: "u64_bytes v = u64_bytes w" and n: "n < LENGTH(64)"
  then have i: "n div 8 < 8"
    by simp
  have "ucast (drop_bit (8 * (n div 8)) v) = (ucast (drop_bit (8 * (n div 8)) w) :: byte)"
    using arg_cong [OF eq, of "\<lambda>l. l ! (n div 8)"] i by (simp add: u64_bytes_def)
  then have "bit (ucast (drop_bit (8 * (n div 8)) v) :: byte) (n mod 8) =
      bit (ucast (drop_bit (8 * (n div 8)) w) :: byte) (n mod 8)"
    by simp
  then show "bit v n = bit w n"
    by (simp add: bit_unsigned_iff bit_drop_bit_eq)
qed

text \<open>
  The child writes the numbers of its arguments in order, and leaves with 0 only when all of
  them were written.
\<close>

lemma ef_writes:
  "wp (for_list (ef_write x efd) args) (\<lambda>r t. \<exists>rs. length rs \<le> length args \<and>
      log t = log s @ map2 (\<lambda>arg r. Ev_write efd (u64_bytes (strtoull0 arg)) r) (take (length rs) args) rs \<and>
      (case r of Ok _ \<Rightarrow> length rs = length args \<and> list_all ((=) 8) rs | Exit c \<Rightarrow> c = 1 \<and> rs \<noteq> [] \<and> last rs \<noteq> 8 | Fault f \<Rightarrow> False)) s"
proof (induction args arbitrary: s)
  case Nil
  then show ?case by (simp add: wp_ret)
next
  case (Cons arg args)
  let ?d = "u64_bytes (strtoull0 arg)"
  let ?r = "x_write x (log s) efd ?d"
  show ?case
  proof (cases "?r = 8")
    case False
    then show ?thesis
      by (simp add: ef_write_def write_c_def wp_simps) (intro exI [of _ "[?r]"], simp)
  next
    case True
    let ?t = "s\<lparr>log := log s @ [Ev_write efd ?d 8]\<rparr>"
    have "wp (for_list (ef_write x efd) (arg # args)) Q s = wp (for_list (ef_write x efd) args) Q ?t" for Q
      using True by (simp add: wp_bnd ef_write_def write_c_def wp_ask wp_ret)
    then show ?thesis
      using Cons.IH [of ?t]
      by (simp del: for_list.simps, elim wp_mono) (elim exE conjE, rule_tac x = "8 # rs" in exI, auto split: outcome.splits)
  qed
qed

lemma ef_child_writes_all:
  assumes "ef_child x efd argv s = (Exit 0, t)"
  shows "log t = log s @ map (\<lambda>arg. Ev_write efd (u64_bytes (strtoull0 arg)) 8) (tl argv)"
proof -
  have *: "map2 (\<lambda>arg r. Ev_write efd (u64_bytes (strtoull0 arg)) r) args rs =
      map (\<lambda>arg. Ev_write efd (u64_bytes (strtoull0 arg)) 8) args"
    if "length rs = length args" "list_all ((=) 8) rs" for args rs
    using that by (induction rs args rule: list_induct2) auto
  have "wp (ef_child x efd argv) (\<lambda>r t. r = Exit 0 \<longrightarrow>
      log t = log s @ map (\<lambda>arg. Ev_write efd (u64_bytes (strtoull0 arg)) 8) (tl argv)) s"
    unfolding ef_child_def wp_andthen
    by (rule wp_mono [OF ef_writes]) (auto simp: after_def wp_exit * split: outcome.splits)
  with assms show ?thesis by (auto dest: wpD)
qed

text \<open>The program ends with 0 exactly where its one write was queued and completed with a positive result.\<close>

lemma hw_writes:
  assumes "sqe_helpers u"
  shows "wp (hw_main u) (\<lambda>r t. (\<forall>a. r \<noteq> Ok a) \<and> (r = Exit 0 \<longleftrightarrow> (\<exists>q c es. log t = log s @ es \<and> queued es = [q] \<and>
    seen es = [c] \<and> sq_op q = Op_write 1 (Auto ''main'' ''hello'') 13 0 \<and> 0 < cq_res c \<and> last es = Ev_queue_exit))) s"
  by (auto simp: hw_main_def host_defs cqe_defs wp_simps sqe_helpersD [OF assms] split: option.split prod.split)

end
