(* ===== verification/Spec2Isabelle.thy ===== *)
theory Spec2Isabelle
  imports IO_Op Uring_Echo Liburing_File Epoll_Echo Blocking_Demos Uring_Echo_V1
    Uring_Echo_V2 Uring_Echo_V3 Uring_Echo_Live Coroutine_Refines Uring_Demos Small_Demos
begin

text \<open>
  iowrapper is a collection of network servers and small programs around io_uring: echo
  servers in several versions, the functions they share, a file interface for a Go binding,
  and programs with epoll or with blocking calls to compare with. This development models
  the C programs and proves what makes them correct, and where they are not, what goes
  wrong.

  \<^bold>\<open>The embedding.\<close> \<open>IO_Prelude\<close>: a C function is a computation on a state that returns a value,
  leaves the process with \<^verbatim>\<open>exit\<close>, or runs into undefined behaviour, which is a named
  fault; \<open>wp\<close> is its predicate transformer. A \<^verbatim>\<open>while (1)\<close> loop is the family of its
  first \<open>n\<close> rounds, and what is proved of it holds for every \<open>n\<close>. \<open>C_Std\<close>: number parsing,
  byte order and array access of the C library. \<open>Getopt\<close>: the loop over \<^verbatim>\<open>getopt\<close>.

  \<^bold>\<open>The environment.\<close> \<open>Host\<close>: liburing (a submodule that is not part of the sources), the
  system calls and the allocator are records of functions from the calls made so far to the
  answer; each call appends an event to the log of the state. Nothing is assumed of them;
  a theorem names what it relies on (\<open>sqe_helpers\<close>, \<open>sock_ok\<close>, \<open>peek_ok\<close>, \<open>has_room\<close>,
  \<open>alloc_bounded\<close>, and predicates on the completions of a run). \<open>Ring_Trace\<close>: which requests
  are queued, completed and in flight according to a log, the room in the submission ring,
  and the locale \<open>ring_server\<close>, the interface between an event loop and its handler.
  \<open>Example_Env\<close>: concrete environments for the witnesses.

  \<^bold>\<open>Shared functions\<close> of \<^verbatim>\<open>demo/io_op.c\<close>. \<open>Conn_Info\<close>: the eight bytes of
  \<^verbatim>\<open>conn_info\<close> in the user data of a request, and that they come back. \<open>IO_Op\<close>: the
  listening socket, the request functions and the registration of a buffer pool: what each
  does on every path, that the message header of the \<^verbatim>\<open>recvmsg\<close> and \<^verbatim>\<open>sendmsg\<close>
  requests does not live long enough.

  \<^bold>\<open>Servers on io_uring.\<close> \<open>Uring_Echo\<close> is \<^verbatim>\<open>io_uring_echo_server.c\<close>: one request for each
  connection, conservation of the buffers, echo, requests within the pool, room in the ring;
  \<open>Uring_Echo_Live\<close> shows that it gets to its loop and stays in it.
  \<open>Server_Args\<close> holds what the variants v1, v2 and v3 share (options, memory, socket, registered
  files), \<open>Slot_Table\<close> the invariant of a table with one entry for each descriptor, and
  \<open>Uring_Echo_V1\<close> is \<^verbatim>\<open>io_uring_echo_server_v1.c\<close>: one request for each connection, echo,
  no undefined behaviour in the loop, and what a failed accept and a reused descriptor do.
  \<open>Uring_Echo_V2\<close> is \<^verbatim>\<open>io_uring_echo_server_v2.c\<close>, with a ring of provided buffers: one request
  for each connection, and that a message is not sent from the memory it was received into.
  \<open>Uring_Echo_V3\<close> is \<^verbatim>\<open>io_uring_echo_server_v3.c\<close>, with multi-shot poll and a table for each kind
  of request: requests in flight are typed by their table entries, echo, and that a receive
  may overwrite what is being sent.
  \<open>Coroutine_Echo\<close> is the server with C++ coroutines: each is suspended at the one request it
  waits for, it makes the same requests as the server with callbacks of \<open>Uring_Echo\<close>, except
  where a receive fails. \<open>Echo_Spec\<close> is what an echo server promises, as a step relation on the
  phases of its connections, with the locale \<open>echo_server\<close> for handlers that follow it;
  \<open>Coroutine_Refines\<close> shows that the coroutine server does. \<open>Uring_Demos\<close>: the four demos on io_uring, echo for two of them, and
  how the other two end.

  \<^bold>\<open>Servers without io_uring.\<close> \<open>Sock_Buffer\<close>: receiving into and sending from a buffer.
  \<open>Epoll_Echo\<close>: \<^verbatim>\<open>c-epoll-server/main.c\<close> and the epoll demo. \<open>Blocking_Demos\<close>: the two
  demos with blocking calls. Each is shown to stay within its buffer and to answer every
  message on its connection.

  \<^bold>\<open>Files.\<close> \<open>Liburing_File\<close> is \<^verbatim>\<open>iouring/liburing.c\<close>: the block plan of a read, memory
  safety and absence of leaks over any sequence of calls, and the results of a pop.

  \<^bold>\<open>Small programs.\<close> \<open>Small_Demos\<close>: \<^verbatim>\<open>bench.c\<close>, whose loop is shown to end (its fuel is the
  number of rounds, and one more than the readings the clock takes to pass ten seconds is
  enough), \<^verbatim>\<open>eventfd.c\<close> and \<^verbatim>\<open>helloworld.c\<close>.

  \<^bold>\<open>Not modelled\<close>: text that is printed, the programs in Go and Rust, shell scripts, the
  files that hold only comments.
\<close>

end
